theory Spec2Isabelle
  imports Complex_Main
begin

chapter \<open>The practice-timer core of 10khours: embedding\<close>

text \<open>
  The hooks and components are React function components. Their mutable cells
  (\<^verbatim>\<open>useRef\<close>) and state variables (\<^verbatim>\<open>useState\<close>) become the fields of a record
  that every handler takes and returns. What the platform decides (whether a
  constructor throws, whether a promise resolves or rejects) is an explicit
  environment argument. A thrown exception or a rejected promise is the value
  \<open>Inl JsError\<close>.
\<close>

datatype error = JsError

section \<open>useScreenWakeLock (src/hooks/useKeyboardShortcuts.ts, second document)\<close>

record WakeLockSentinel =
  released :: bool

record NoSleep =
  enabled :: bool

text \<open>What the browser answers during one call.\<close>

record wake_env =
  window_defined :: bool      \<comment> \<open>\<^verbatim>\<open>typeof window !== 'undefined'\<close>\<close>
  nosleep_ctor_ok :: bool     \<comment> \<open>\<^verbatim>\<open>new NoSleep()\<close> does not throw\<close>
  nosleep_enable_ok :: bool   \<comment> \<open>\<^verbatim>\<open>noSleep.enable()\<close> resolves\<close>
  native_present :: bool      \<comment> \<open>\<^verbatim>\<open>'wakeLock' in navigator && navigator.wakeLock\<close>\<close>
  native_request_ok :: bool   \<comment> \<open>\<^verbatim>\<open>navigator.wakeLock.request('screen')\<close> resolves\<close>

record wake_state =
  isWakeLockActive :: bool
  isWakeLockSupported :: bool
  wakeLockRef :: "WakeLockSentinel option"
  noSleepRef :: "NoSleep option"
  hasInitialized :: bool

definition new_NoSleep :: "wake_env \<Rightarrow> error + NoSleep" where
  "new_NoSleep env = (if nosleep_ctor_ok env then Inr \<lparr>enabled = False\<rparr> else Inl JsError)"

definition NoSleep_enable :: "wake_env \<Rightarrow> NoSleep \<Rightarrow> error + NoSleep" where
  "NoSleep_enable env ns = (if nosleep_enable_ok env then Inr (ns\<lparr>enabled := True\<rparr>) else Inl JsError)"

definition wakeLock_request :: "wake_env \<Rightarrow> error + WakeLockSentinel" where
  "wakeLock_request env = (if native_request_ok env then Inr \<lparr>released = False\<rparr> else Inl JsError)"

text \<open>\<^verbatim>\<open>initNoSleep\<close>: the constructor runs inside try/catch.\<close>

definition initNoSleep :: "wake_env \<Rightarrow> wake_state \<Rightarrow> bool \<times> wake_state" where
  "initNoSleep env st =
     (if noSleepRef st = None \<and> window_defined env then
        (case new_NoSleep env of
           Inr ns \<Rightarrow> (True, st\<lparr>noSleepRef := Some ns\<rparr>)
         | Inl err \<Rightarrow> (False, st))
      else (noSleepRef st \<noteq> None, st))"

text \<open>
  \<^verbatim>\<open>enableWakeLock\<close>. The pair \<open>(wakeLockSuccess, st)\<close> is threaded through the two
  methods; both awaits sit inside try/catch, so a rejection only skips the rest
  of its try block.
\<close>

definition enable_method1 :: "wake_env \<Rightarrow> wake_state \<Rightarrow> bool \<times> wake_state" where
  "enable_method1 env st =
     (case noSleepRef st of
        None \<Rightarrow> (False, st)
      | Some ns \<Rightarrow>
          (case NoSleep_enable env ns of
             Inr ns' \<Rightarrow> (True, st\<lparr>noSleepRef := Some ns', isWakeLockActive := True\<rparr>)
           | Inl err \<Rightarrow> (False, st)))"

definition enable_method2 :: "wake_env \<Rightarrow> bool \<times> wake_state \<Rightarrow> bool \<times> wake_state" where
  "enable_method2 env p =
     (case p of (wakeLockSuccess, st) \<Rightarrow>
        if \<not> wakeLockSuccess \<and> window_defined env then
          (if native_present env then
             (case wakeLock_request env of
                Inr wl \<Rightarrow> (True, st\<lparr>wakeLockRef := Some wl, isWakeLockActive := True\<rparr>)
              | Inl err \<Rightarrow> (wakeLockSuccess, st))
           else (wakeLockSuccess, st))
        else (wakeLockSuccess, st))"

definition enableWakeLock :: "wake_env \<Rightarrow> wake_state \<Rightarrow> (error + bool) \<times> wake_state" where
  "enableWakeLock env st =
     (case enable_method2 env (enable_method1 env (snd (initNoSleep env st))) of
        (wakeLockSuccess, st') \<Rightarrow>
          if wakeLockSuccess then (Inr True, st')
          else (Inr False, st'\<lparr>isWakeLockActive := False\<rparr>))"

text \<open>
  The two mechanisms, read off the environment: the fallback succeeds when a
  NoSleep object exists or can be built and its \<^verbatim>\<open>enable()\<close> resolves; the native
  lock succeeds when the API is there and the request resolves.
\<close>

definition fallback_succeeds :: "wake_env \<Rightarrow> wake_state \<Rightarrow> bool" where
  "fallback_succeeds env st \<longleftrightarrow>
     (noSleepRef st \<noteq> None \<or> (window_defined env \<and> nosleep_ctor_ok env)) \<and> nosleep_enable_ok env"

definition native_succeeds :: "wake_env \<Rightarrow> bool" where
  "native_succeeds env \<longleftrightarrow> window_defined env \<and> native_present env \<and> native_request_ok env"


section \<open>useDebouncedSlider (src/unnamed/part_006)\<close>

text \<open>
  A pending \<^verbatim>\<open>setTimeout\<close> is an entry of the event loop's timer table: its id,
  the time at which it is due, and its callback. The hook creates two kinds of
  callback: the one of \<^verbatim>\<open>handleEnd\<close> calls \<^verbatim>\<open>onSave(valueRef.current)\<close>, the
  one of \<^verbatim>\<open>handleChange\<close> calls \<^verbatim>\<open>onSave(newValue)\<close> with the value it closed over.
  Times are milliseconds.
\<close>

datatype 'a timer_callback = SaveCurrent | SaveCaptured 'a

record 'a timeout =
  tid :: nat
  due :: nat
  callback :: "'a timer_callback"

record 'a slider =
  initialValue :: 'a            \<comment> \<open>prop, as of the last render\<close>
  debounceMs :: nat             \<comment> \<open>prop, default 1000\<close>
  value_st :: 'a                \<comment> \<open>\<^verbatim>\<open>value\<close> (useState)\<close>
  isInteracting :: bool
  isPending :: bool
  isInteractingRef :: bool
  valueRef :: 'a
  timeoutRef :: "nat option"
  timers :: "'a timeout list"   \<comment> \<open>pending timeouts, in the order they were set\<close>
  nextId :: nat                 \<comment> \<open>timer ids are positive, so an id is truthy\<close>
  saved :: "'a list"            \<comment> \<open>arguments of the \<^verbatim>\<open>onSave\<close> calls so far, oldest first\<close>

definition useDebouncedSlider :: "'a \<Rightarrow> nat \<Rightarrow> 'a slider" where
  "useDebouncedSlider v ms =
     \<lparr>initialValue = v, debounceMs = ms, value_st = v, isInteracting = False,
      isPending = False, isInteractingRef = False, valueRef = v, timeoutRef = None,
      timers = [], nextId = 1, saved = []\<rparr>"

text \<open>\<^verbatim>\<open>timeoutRef.current = setTimeout(cb, debounceMs)\<close> at time \<open>now\<close>.\<close>

definition setTimeout_ref :: "'a timer_callback \<Rightarrow> nat \<Rightarrow> 'a slider \<Rightarrow> 'a slider" where
  "setTimeout_ref cb now st =
     st\<lparr>timers := timers st @ [\<lparr>tid = nextId st, due = now + debounceMs st, callback = cb\<rparr>],
        timeoutRef := Some (nextId st),
        nextId := Suc (nextId st)\<rparr>"

definition clearTimeout :: "nat \<Rightarrow> 'a slider \<Rightarrow> 'a slider" where
  "clearTimeout i st = st\<lparr>timers := filter (\<lambda>t. tid t \<noteq> i) (timers st)\<rparr>"

definition cancelSave :: "'a slider \<Rightarrow> 'a slider" where
  "cancelSave st =
     (case timeoutRef st of
        Some i \<Rightarrow> (clearTimeout i st)\<lparr>timeoutRef := None\<rparr>
      | None \<Rightarrow> st)\<lparr>isPending := False\<rparr>"

definition handleStart :: "'a slider \<Rightarrow> 'a slider" where
  "handleStart st = cancelSave (st\<lparr>isInteractingRef := True, isInteracting := True\<rparr>)"

definition handleEnd :: "nat \<Rightarrow> 'a slider \<Rightarrow> 'a slider" where
  "handleEnd now st =
     setTimeout_ref SaveCurrent now
       (st\<lparr>isInteractingRef := False, isInteracting := False, isPending := True\<rparr>)"

definition handleChange :: "nat \<Rightarrow> 'a \<Rightarrow> 'a slider \<Rightarrow> 'a slider" where
  "handleChange now newValue st =
     (let st1 = st\<lparr>valueRef := newValue, value_st := newValue\<rparr>
      in if \<not> isInteractingRef st1
         then setTimeout_ref (SaveCaptured newValue) now ((cancelSave st1)\<lparr>isPending := True\<rparr>)
         else st1)"

text \<open>
  The effect on \<^verbatim>\<open>[initialValue]\<close>. React runs it after a render whose
  \<^verbatim>\<open>initialValue\<close> differs from the previous one.
\<close>

definition initialValue_effect :: "'a slider \<Rightarrow> 'a slider" where
  "initialValue_effect st =
     (if \<not> isInteractingRef st
      then st\<lparr>value_st := initialValue st, valueRef := initialValue st\<rparr>
      else st)"

definition rerender :: "'a \<Rightarrow> 'a slider \<Rightarrow> 'a slider" where
  "rerender v st =
     (if v = initialValue st then st else initialValue_effect (st\<lparr>initialValue := v\<rparr>))"

text \<open>
  A timeout's callback: \<^verbatim>\<open>onSave\<close> is called inside try/catch, then
  \<^verbatim>\<open>setIsPending(false)\<close>. It does not clear \<^verbatim>\<open>timeoutRef\<close>.
\<close>

definition run_callback :: "'a slider \<Rightarrow> 'a timeout \<Rightarrow> 'a slider" where
  "run_callback st t =
     st\<lparr>saved := saved st @ [case callback t of SaveCurrent \<Rightarrow> valueRef st | SaveCaptured v \<Rightarrow> v],
        isPending := False\<rparr>"

text \<open>
  The event loop up to time \<open>now\<close>: every timeout due by then leaves the table
  and runs, earliest first, ties in the order they were set.
\<close>

definition advance :: "nat \<Rightarrow> 'a slider \<Rightarrow> 'a slider" where
  "advance now st =
     foldl run_callback
       (st\<lparr>timers := filter (\<lambda>t. now < due t) (timers st)\<rparr>)
       (sort_key due (filter (\<lambda>t. due t \<le> now) (timers st)))"

text \<open>A run of \<^verbatim>\<open>onChange\<close> calls, each with the time of the call.\<close>

definition handleChanges :: "(nat \<times> 'a) list \<Rightarrow> 'a slider \<Rightarrow> 'a slider" where
  "handleChanges cs st = foldl (\<lambda>s c. handleChange (fst c) (snd c) s) st cs"

text \<open>Every pending timeout is the one \<^verbatim>\<open>timeoutRef\<close> holds.\<close>

definition no_stray_timer :: "'a slider \<Rightarrow> bool" where
  "no_stray_timer st \<longleftrightarrow> (\<forall>t \<in> set (timers st). timeoutRef st = Some (tid t))"

text \<open>The states the hook can be in: any interleaving of its handlers, renders and timers.\<close>

inductive slider_reachable :: "'a slider \<Rightarrow> bool" where
  mount: "slider_reachable (useDebouncedSlider v ms)"
| onStart: "slider_reachable st \<Longrightarrow> slider_reachable (handleStart st)"
| onEnd: "slider_reachable st \<Longrightarrow> slider_reachable (handleEnd now st)"
| onChange: "slider_reachable st \<Longrightarrow> slider_reachable (handleChange now v st)"
| render: "slider_reachable st \<Longrightarrow> slider_reachable (rerender v st)"
| timer: "slider_reachable st \<Longrightarrow> slider_reachable (advance now st)"

text \<open>
  The states between interactions when every \<^verbatim>\<open>onEnd\<close> closes an interaction that
  an \<^verbatim>\<open>onStart\<close> opened: whole interactions, programmatic changes, renders and
  timers.
\<close>

inductive slider_settled :: "'a slider \<Rightarrow> bool" where
  settled_mount: "slider_settled (useDebouncedSlider v ms)"
| settled_interaction: "slider_settled st \<Longrightarrow>
     slider_settled (handleEnd te (handleChanges cs (handleStart st)))"
| settled_change: "slider_settled st \<Longrightarrow> slider_settled (handleChange now v st)"
| settled_render: "slider_settled st \<Longrightarrow> slider_settled (rerender v st)"
| settled_timer: "slider_settled st \<Longrightarrow> slider_settled (advance now st)"

section \<open>useMetronome (src/hooks/useMetronome.ts)\<close>

subsection \<open>Data\<close>

text \<open>
  \<^verbatim>\<open>bpm\<close> and \<^verbatim>\<open>timeSignature\<close> are whole numbers wherever they are set: the
  tempo slider runs from 40 to 200 in steps of 1, a song stores an integer tempo,
  and the time signature comes from \<^verbatim>\<open>parseInt\<close>. \<^verbatim>\<open>volume\<close> is the slider's
  0 to 100 in steps of 5, divided by 100.
\<close>

datatype sound = click | beep | wood | digital

datatype OscillatorType = square | sine | sawtooth | triangle

record MetronomeSettings =
  bpm :: nat
  volume :: rat
  sound :: sound
  accent :: bool
  timeSignature :: nat

text \<open>\<^verbatim>\<open>Partial<MetronomeSettings>\<close>: a field is present or absent.\<close>

record PartialSettings =
  new_bpm :: "nat option"
  new_volume :: "rat option"
  new_sound :: "sound option"
  new_accent :: "bool option"
  new_timeSignature :: "nat option"

text \<open>An \<^verbatim>\<open>AudioContext\<close> is represented by its \<^verbatim>\<open>state\<close>.\<close>

datatype AudioContextState = suspended | running | closed

text \<open>
  What \<^verbatim>\<open>createSound\<close> hands to the audio device: an oscillator of a given type
  and frequency whose gain ramps up to \<open>gain\<close> and decays over \<open>tone_duration\<close>
  seconds. \<open>emitted_at\<close> is the time of the call, in milliseconds. Numbers are rationals:
  the source's doubles are exact on the values that occur here up to rounding
  of the last bit, which the model does not represent.
\<close>

record tone =
  osc_type :: OscillatorType
  frequency :: rat
  gain :: rat
  tone_duration :: rat
  emitted_at :: rat

text \<open>
  A closure of the hook sees the \<^verbatim>\<open>isPlaying\<close> and \<^verbatim>\<open>settings\<close> of the render
  that created it. \<^verbatim>\<open>start\<close>, \<^verbatim>\<open>toggle\<close>, \<^verbatim>\<open>playBeat\<close> and \<^verbatim>\<open>createSound\<close> are
  rebuilt whenever one of the values they read changes, so a handler is
  determined by the render it comes from.
\<close>

record render =
  r_isPlaying :: bool
  r_settings :: MetronomeSettings

text \<open>
  An active \<^verbatim>\<open>setInterval\<close>: its id, its period, the time of its next firing,
  and the settings its callback closed over.
\<close>

record interval =
  iid :: nat
  delay :: rat
  next_due :: rat
  captured :: MetronomeSettings

text \<open>
  An \<^verbatim>\<open>async\<close> call either has returned, with its promise resolved (\<open>Inr\<close>) or
  rejected (\<open>Inl\<close>), or is suspended at an \<^verbatim>\<open>await\<close>.
\<close>

datatype outcome = Returned "error + unit" | Awaiting

text \<open>
  What a suspended \<^verbatim>\<open>toggle\<close> waits for at \<^verbatim>\<open>await start()\<close>: a \<^verbatim>\<open>start\<close> that has
  already settled (the continuation runs as a microtask), or one that is itself
  suspended.
\<close>

datatype toggle_wait = StartSettled "error + unit" | StartPending

record metronome =
  isPlaying :: bool
  settings :: MetronomeSettings
  currentBeat :: "nat option"                 \<comment> \<open>\<open>None\<close> is \<^verbatim>\<open>NaN\<close>\<close>
  audioContextRef :: "AudioContextState option"
  intervalRef :: "nat option"
  beatCountRef :: nat
  startInProgressRef :: bool
  toggleInProgressRef :: bool
  intervals :: "interval list"                \<comment> \<open>the event loop's active intervals\<close>
  next_timer :: nat                           \<comment> \<open>the id the next timer gets; ids are positive\<close>
  reset_timeouts :: nat                       \<comment> \<open>pending 100 ms timeouts of \<^verbatim>\<open>toggle\<close>\<close>
  restart_timeouts :: "render list"           \<comment> \<open>pending 50 ms timeouts of \<^verbatim>\<open>updateSettings\<close>\<close>
  start_awaiting :: "render option"           \<comment> \<open>a \<^verbatim>\<open>start\<close> suspended at \<^verbatim>\<open>await resume()\<close>\<close>
  toggle_awaiting :: "toggle_wait option"     \<comment> \<open>a \<^verbatim>\<open>toggle\<close> suspended at \<^verbatim>\<open>await start()\<close>\<close>
  sounds :: "tone list"                       \<comment> \<open>the tones requested so far, oldest first\<close>

text \<open>What the browser answers during one call.\<close>

record audio_env =
  has_window :: bool                          \<comment> \<open>\<^verbatim>\<open>typeof window !== 'undefined'\<close>\<close>
  ctor_result :: "AudioContextState option"   \<comment> \<open>\<^verbatim>\<open>new AudioContext()\<close>: \<open>None\<close> when it throws\<close>
  resume_ok :: bool                           \<comment> \<open>\<^verbatim>\<open>audioContext.resume()\<close> resolves\<close>

definition default_settings :: MetronomeSettings where
  "default_settings = \<lparr>bpm = 120, volume = 1, sound = click, accent = True, timeSignature = 4\<rparr>"

text \<open>The mounted hook; \<open>ctx\<close> is what the mount effect stored in \<^verbatim>\<open>audioContextRef\<close>.\<close>

definition useMetronome :: "AudioContextState option \<Rightarrow> metronome" where
  "useMetronome ctx =
     \<lparr>isPlaying = False, settings = default_settings, currentBeat = Some 0,
      audioContextRef = ctx, intervalRef = None, beatCountRef = 0,
      startInProgressRef = False, toggleInProgressRef = False, intervals = [],
      next_timer = 1, reset_timeouts = 0, restart_timeouts = [], start_awaiting = None,
      toggle_awaiting = None, sounds = []\<rparr>"

definition current_render :: "metronome \<Rightarrow> render" where
  "current_render st = \<lparr>r_isPlaying = isPlaying st, r_settings = settings st\<rparr>"

subsection \<open>Sound\<close>

text \<open>The \<^verbatim>\<open>switch (settings.sound)\<close> of \<^verbatim>\<open>createSound\<close>.\<close>

definition oscillator_tone :: "sound \<Rightarrow> rat \<Rightarrow> rat \<Rightarrow> rat \<Rightarrow> rat \<Rightarrow> tone" where
  "oscillator_tone kind freq dur vol now =
     (case kind of
        click \<Rightarrow> \<lparr>osc_type = square, frequency = freq * 2, gain = vol, tone_duration = dur, emitted_at = now\<rparr>
      | beep \<Rightarrow> \<lparr>osc_type = sine, frequency = freq, gain = vol, tone_duration = dur, emitted_at = now\<rparr>
      | wood \<Rightarrow> \<lparr>osc_type = sawtooth, frequency = freq * (1 / 2), gain = vol, tone_duration = dur, emitted_at = now\<rparr>
      | digital \<Rightarrow> \<lparr>osc_type = triangle, frequency = freq, gain = vol, tone_duration = dur, emitted_at = now\<rparr>)"

definition createSound :: "sound \<Rightarrow> rat \<Rightarrow> rat \<Rightarrow> rat \<Rightarrow> rat \<Rightarrow> metronome \<Rightarrow> metronome" where
  "createSound kind freq dur vol now st =
     (case audioContextRef st of
        None \<Rightarrow> st
      | Some ctx \<Rightarrow> st\<lparr>sounds := sounds st @ [oscillator_tone kind freq dur vol now]\<rparr>)"

text \<open>
  \<^verbatim>\<open>a % b\<close> on non-negative integers; \<open>None\<close> is \<^verbatim>\<open>NaN\<close>, the result for \<open>b = 0\<close>, and
  \<^verbatim>\<open>NaN === 0\<close> is false.
\<close>

definition js_mod :: "nat \<Rightarrow> nat \<Rightarrow> nat option" where
  "js_mod a b = (if b = 0 then None else Some (a mod b))"

definition playBeat :: "render \<Rightarrow> rat \<Rightarrow> metronome \<Rightarrow> metronome" where
  "playBeat r now st =
     (let isAccentBeat = (accent (r_settings r)
                          \<and> js_mod (beatCountRef st) (timeSignature (r_settings r)) = Some 0);
          freq = (if isAccentBeat then 800 else 400);
          vol = volume (r_settings r) * (if isAccentBeat then 12 / 10 else 1);
          dur = 1 / 10;
          st1 = createSound (sound (r_settings r)) freq dur vol now st
      in st1\<lparr>beatCountRef := beatCountRef st1 + 1\<rparr>)"

text \<open>The callback of the interval set by \<^verbatim>\<open>start\<close>, with the settings it closed over.\<close>

definition interval_callback :: "MetronomeSettings \<Rightarrow> rat \<Rightarrow> metronome \<Rightarrow> metronome" where
  "interval_callback s now st =
     (let isAccentBeat = (accent s \<and> js_mod (beatCountRef st) (timeSignature s) = Some 0);
          freq = (if isAccentBeat then 800 else 400);
          vol = volume s * (if isAccentBeat then 12 / 10 else 1);
          dur = 1 / 10;
          st1 = createSound (sound s) freq dur vol now st;
          st2 = st1\<lparr>beatCountRef := beatCountRef st1 + 1\<rparr>
      in st2\<lparr>currentBeat := map_option (\<lambda>m. m + 1) (js_mod (beatCountRef st2) (timeSignature s))\<rparr>)"

text \<open>
  The event loop fires interval \<open>i\<close> at the time it is due. A cleared interval
  is no longer in the table and does not fire.
\<close>

definition interval_fires :: "nat \<Rightarrow> metronome \<Rightarrow> metronome" where
  "interval_fires i st =
     (case find (\<lambda>t. iid t = i) (intervals st) of
        None \<Rightarrow> st
      | Some t \<Rightarrow>
          (interval_callback (captured t) (next_due t) st)
            \<lparr>intervals := map (\<lambda>u. if iid u = i then u\<lparr>next_due := next_due u + delay u\<rparr> else u)
                               (intervals st)\<rparr>)"

subsection \<open>start, stop, toggle, updateSettings\<close>

text \<open>
  The part of \<^verbatim>\<open>start\<close> after the \<^verbatim>\<open>await\<close>: \<^verbatim>\<open>setIsPlaying(true)\<close>, the counter
  reset, the first beat, and \<^verbatim>\<open>intervalRef.current = setInterval(..., interval)\<close>.
  For \<open>bpm = 0\<close> the source's quotient is \<^verbatim>\<open>Infinity\<close>, which the model has no
  value for; the properties below are about \<open>bpm\<close> from 40 to 200.
\<close>

definition start_run :: "render \<Rightarrow> rat \<Rightarrow> metronome \<Rightarrow> metronome" where
  "start_run r now st =
     (let st1 = st\<lparr>isPlaying := True, beatCountRef := 0\<rparr>;
          interval = 60000 / of_nat (bpm (r_settings r));
          st2 = playBeat r now st1
      in st2\<lparr>intervals := intervals st2 @
                 [\<lparr>iid = next_timer st2, delay = interval, next_due = now + interval,
                   captured = r_settings r\<rparr>],
             intervalRef := Some (next_timer st2),
             next_timer := Suc (next_timer st2)\<rparr>)"

text \<open>The \<^verbatim>\<open>catch\<close> and \<^verbatim>\<open>finally\<close> blocks of \<^verbatim>\<open>start\<close> on a failure.\<close>

definition start_failed :: "metronome \<Rightarrow> metronome" where
  "start_failed st = st\<lparr>isPlaying := False, startInProgressRef := False\<rparr>"

text \<open>\<^verbatim>\<open>start\<close> up to its return or to \<^verbatim>\<open>await audioContextRef.current.resume()\<close>.\<close>

definition start_begin :: "render \<Rightarrow> audio_env \<Rightarrow> rat \<Rightarrow> metronome \<Rightarrow> outcome \<times> metronome" where
  "start_begin r env now st =
     (if r_isPlaying r \<or> startInProgressRef st then (Returned (Inr ()), st)
      else
        (let st1 = st\<lparr>startInProgressRef := True\<rparr>
         in case (if audioContextRef st1 = None \<and> has_window env
                  then (case ctor_result env of
                          None \<Rightarrow> Inl JsError
                        | Some c \<Rightarrow> Inr (st1\<lparr>audioContextRef := Some c\<rparr>))
                  else Inr st1) of
              Inl err \<Rightarrow> (Returned (Inl err), start_failed st1)
            | Inr st2 \<Rightarrow>
                (case audioContextRef st2 of
                   None \<Rightarrow> (Returned (Inl JsError), start_failed st2)
                 | Some c \<Rightarrow>
                     if c = suspended then (Awaiting, st2\<lparr>start_awaiting := Some r\<rparr>)
                     else (Returned (Inr ()),
                           (start_run r now st2)\<lparr>startInProgressRef := False\<rparr>))))"

text \<open>
  The continuation of a suspended \<^verbatim>\<open>start\<close> when \<^verbatim>\<open>resume()\<close> settles: \<open>ok\<close> says
  whether it resolved. A resolved \<^verbatim>\<open>resume()\<close> leaves the context running.
\<close>

definition start_resume :: "bool \<Rightarrow> rat \<Rightarrow> metronome \<Rightarrow> (error + unit) \<times> metronome" where
  "start_resume ok now st =
     (case start_awaiting st of
        None \<Rightarrow> (Inr (), st)
      | Some r \<Rightarrow>
          (let st1 = st\<lparr>start_awaiting := None\<rparr>
           in if ok
              then (Inr (), (start_run r now (st1\<lparr>audioContextRef := Some running\<rparr>))
                              \<lparr>startInProgressRef := False\<rparr>)
              else (Inl JsError, start_failed st1)))"

text \<open>A call of \<^verbatim>\<open>start\<close> that nothing interleaves with, run to its end.\<close>

definition start :: "render \<Rightarrow> audio_env \<Rightarrow> rat \<Rightarrow> metronome \<Rightarrow> (error + unit) \<times> metronome" where
  "start r env now st =
     (case start_begin r env now st of
        (Returned res, st') \<Rightarrow> (res, st')
      | (Awaiting, st') \<Rightarrow> start_resume (resume_ok env) now st')"

definition stop :: "metronome \<Rightarrow> metronome" where
  "stop st =
     (case intervalRef st of
        Some i \<Rightarrow> st\<lparr>intervals := filter (\<lambda>t. iid t \<noteq> i) (intervals st), intervalRef := None\<rparr>
      | None \<Rightarrow> st)
     \<lparr>isPlaying := False, currentBeat := Some 0\<rparr>"

text \<open>
  \<^verbatim>\<open>toggle\<close> up to its return or to \<^verbatim>\<open>await start()\<close>. In the \<^verbatim>\<open>stop\<close> branch the
  \<^verbatim>\<open>finally\<close> block runs at once and sets the 100 ms timeout.
\<close>

definition toggle :: "render \<Rightarrow> audio_env \<Rightarrow> rat \<Rightarrow> metronome \<Rightarrow> outcome \<times> metronome" where
  "toggle r env now st =
     (if toggleInProgressRef st then (Returned (Inr ()), st)
      else
        (let st1 = st\<lparr>toggleInProgressRef := True\<rparr>
         in if r_isPlaying r
            then (let st2 = stop st1
                  in (Returned (Inr ()), st2\<lparr>reset_timeouts := reset_timeouts st2 + 1\<rparr>))
            else (case start_begin r env now st1 of
                    (Returned res, st2) \<Rightarrow> (Awaiting, st2\<lparr>toggle_awaiting := Some (StartSettled res)\<rparr>)
                  | (Awaiting, st2) \<Rightarrow> (Awaiting, st2\<lparr>toggle_awaiting := Some StartPending\<rparr>))))"

text \<open>
  \<^verbatim>\<open>resume()\<close> settles: the suspended \<^verbatim>\<open>start\<close> runs on, and a \<^verbatim>\<open>toggle\<close> that waits
  for it now waits for a settled promise.
\<close>

definition resume_settles :: "bool \<Rightarrow> rat \<Rightarrow> metronome \<Rightarrow> metronome" where
  "resume_settles ok now st =
     (case start_awaiting st of
        None \<Rightarrow> st
      | Some r \<Rightarrow>
          (case start_resume ok now st of
             (res, st1) \<Rightarrow>
               if toggle_awaiting st1 = Some StartPending
               then st1\<lparr>toggle_awaiting := Some (StartSettled res)\<rparr>
               else st1))"

text \<open>
  The continuation of \<^verbatim>\<open>toggle\<close> after \<^verbatim>\<open>await start()\<close>: there is no \<^verbatim>\<open>catch\<close>, the
  \<^verbatim>\<open>finally\<close> block sets the 100 ms timeout, and the promise of \<^verbatim>\<open>toggle\<close> settles
  as that of \<^verbatim>\<open>start\<close> did.
\<close>

definition toggle_continue :: "metronome \<Rightarrow> outcome \<times> metronome" where
  "toggle_continue st =
     (case toggle_awaiting st of
        Some (StartSettled res) \<Rightarrow>
          (Returned res, st\<lparr>toggle_awaiting := None, reset_timeouts := reset_timeouts st + 1\<rparr>)
      | _ \<Rightarrow> (Awaiting, st))"

text \<open>The 100 ms timeout of \<^verbatim>\<open>toggle\<close> fires.\<close>

definition reset_fires :: "metronome \<Rightarrow> metronome" where
  "reset_fires st =
     (if reset_timeouts st = 0 then st
      else st\<lparr>toggleInProgressRef := False, reset_timeouts := reset_timeouts st - 1\<rparr>)"

definition merge_settings :: "MetronomeSettings \<Rightarrow> PartialSettings \<Rightarrow> MetronomeSettings" where
  "merge_settings prev p =
     \<lparr>bpm = (case new_bpm p of Some b \<Rightarrow> b | None \<Rightarrow> bpm prev),
      volume = (case new_volume p of Some v \<Rightarrow> v | None \<Rightarrow> volume prev),
      sound = (case new_sound p of Some s \<Rightarrow> s | None \<Rightarrow> sound prev),
      accent = (case new_accent p of Some a \<Rightarrow> a | None \<Rightarrow> accent prev),
      timeSignature = (case new_timeSignature p of Some t \<Rightarrow> t | None \<Rightarrow> timeSignature prev)\<rparr>"

text \<open>
  \<^verbatim>\<open>updateSettings\<close>. \<^verbatim>\<open>newSettings.bpm && isPlaying\<close> holds for a present, non-zero
  \<open>bpm\<close>; the timeout then calls the \<^verbatim>\<open>start\<close> of the same render.
\<close>

definition updateSettings :: "render \<Rightarrow> PartialSettings \<Rightarrow> metronome \<Rightarrow> metronome" where
  "updateSettings r p st =
     (let st1 = st\<lparr>settings := merge_settings (settings st) p\<rparr>
      in if (case new_bpm p of Some b \<Rightarrow> b \<noteq> 0 | None \<Rightarrow> False) \<and> r_isPlaying r
         then (let st2 = stop st1 in st2\<lparr>restart_timeouts := restart_timeouts st2 @ [r]\<rparr>)
         else st1)"

definition restart_fires :: "audio_env \<Rightarrow> rat \<Rightarrow> metronome \<Rightarrow> metronome" where
  "restart_fires env now st =
     (case restart_timeouts st of
        [] \<Rightarrow> st
      | r # rs \<Rightarrow> snd (start_begin r env now (st\<lparr>restart_timeouts := rs\<rparr>)))"

subsection \<open>Reachable states and the terms of the claims\<close>

text \<open>
  Every interleaving of calls of the hook's functions, from any render, with the
  timers and the promise continuations of the event loop.
\<close>

inductive metro_reachable :: "metronome \<Rightarrow> bool" where
  metro_mount: "metro_reachable (useMetronome ctx)"
| metro_toggle: "metro_reachable st \<Longrightarrow> metro_reachable (snd (toggle r env now st))"
| metro_start: "metro_reachable st \<Longrightarrow> metro_reachable (snd (start_begin r env now st))"
| metro_stop: "metro_reachable st \<Longrightarrow> metro_reachable (stop st)"
| metro_resume: "metro_reachable st \<Longrightarrow> metro_reachable (resume_settles ok now st)"
| metro_continue: "metro_reachable st \<Longrightarrow> metro_reachable (snd (toggle_continue st))"
| metro_reset: "metro_reachable st \<Longrightarrow> metro_reachable (reset_fires st)"
| metro_interval: "metro_reachable st \<Longrightarrow> metro_reachable (interval_fires i st)"
| metro_update: "metro_reachable st \<Longrightarrow> metro_reachable (updateSettings r p st)"
| metro_restart: "metro_reachable st \<Longrightarrow> metro_reachable (restart_fires env now st)"

text \<open>
  The audio device can be started: a context exists or can be built, and it is
  running or its \<^verbatim>\<open>resume()\<close> resolves.
\<close>

definition context_after_init :: "audio_env \<Rightarrow> metronome \<Rightarrow> AudioContextState option" where
  "context_after_init env st =
     (case audioContextRef st of
        Some c \<Rightarrow> Some c
      | None \<Rightarrow> if has_window env then ctor_result env else None)"

definition init_fails :: "audio_env \<Rightarrow> metronome \<Rightarrow> bool" where
  "init_fails env st \<longleftrightarrow> context_after_init env st = None"

definition resume_fails :: "audio_env \<Rightarrow> metronome \<Rightarrow> bool" where
  "resume_fails env st \<longleftrightarrow> context_after_init env st = Some suspended \<and> \<not> resume_ok env"

definition audio_starts :: "audio_env \<Rightarrow> metronome \<Rightarrow> bool" where
  "audio_starts env st \<longleftrightarrow> \<not> init_fails env st \<and> \<not> resume_fails env st"

text \<open>
  The accent rule in the specification's words, and the two pulses of a sound
  setting: the tone \<^verbatim>\<open>createSound\<close> is asked for on an accent beat and on any
  other beat.
\<close>

definition is_accent_beat :: "MetronomeSettings \<Rightarrow> nat \<Rightarrow> bool" where
  "is_accent_beat s beatIndex \<longleftrightarrow> accent s \<and> js_mod beatIndex (timeSignature s) = Some 0"

definition accent_pulse :: "MetronomeSettings \<Rightarrow> rat \<Rightarrow> tone" where
  "accent_pulse s now = oscillator_tone (sound s) 800 (1 / 10) (volume s * (12 / 10)) now"

definition regular_pulse :: "MetronomeSettings \<Rightarrow> rat \<Rightarrow> tone" where
  "regular_pulse s now = oscillator_tone (sound s) 400 (1 / 10) (volume s * 1) now"

text \<open>
  Two calls of \<^verbatim>\<open>toggle\<close> in succession and what follows them: the promise of
  \<^verbatim>\<open>resume()\<close> settles if a \<^verbatim>\<open>start\<close> waits for it, then the continuation of
  \<^verbatim>\<open>toggle\<close> runs. \<open>toggle_once\<close> is the same without the second call.
\<close>

definition toggle_settle :: "bool \<Rightarrow> rat \<Rightarrow> metronome \<Rightarrow> metronome" where
  "toggle_settle ok now st = snd (toggle_continue (resume_settles ok now st))"

definition toggle_once :: "render \<Rightarrow> audio_env \<Rightarrow> rat \<Rightarrow> rat \<Rightarrow> metronome \<Rightarrow> metronome" where
  "toggle_once r env now later st =
     toggle_settle (resume_ok env) later (snd (toggle r env now st))"

definition toggle_twice ::
  "render \<Rightarrow> audio_env \<Rightarrow> rat \<Rightarrow> render \<Rightarrow> audio_env \<Rightarrow> rat \<Rightarrow> rat \<Rightarrow> metronome \<Rightarrow> metronome" where
  "toggle_twice r env now r' env' now' later st =
     toggle_settle (resume_ok env) later (snd (toggle r' env' now' (snd (toggle r env now st))))"

text \<open>The invariants carried through the reachable states.\<close>

definition toggle_inv :: "metronome \<Rightarrow> bool" where
  "toggle_inv st \<longleftrightarrow>
     (toggle_awaiting st \<noteq> None \<or> 0 < reset_timeouts st \<longrightarrow> toggleInProgressRef st)
     \<and> (toggle_awaiting st \<noteq> None \<longrightarrow> reset_timeouts st = 0)
     \<and> reset_timeouts st \<le> 1"

definition timer_ids_fresh :: "metronome \<Rightarrow> bool" where
  "timer_ids_fresh st \<longleftrightarrow> (\<forall>t \<in> set (intervals st). iid t < next_timer st)"

text \<open>The pulse of beat number \<open>j\<close> under settings \<open>s\<close>, requested at time \<open>t\<close>.\<close>

definition beat_pulse :: "MetronomeSettings \<Rightarrow> nat \<Rightarrow> rat \<Rightarrow> tone" where
  "beat_pulse s j t = (if is_accent_beat s j then accent_pulse s t else regular_pulse s t)"

text \<open>The period \<^verbatim>\<open>60000 / settings.bpm\<close> of a render.\<close>

definition period :: "render \<Rightarrow> rat" where
  "period r = 60000 / of_nat (bpm (r_settings r))"

text \<open>A browser in which audio works, and one in which \<^verbatim>\<open>resume()\<close> rejects.\<close>

definition env_ok :: audio_env where
  "env_ok = \<lparr>has_window = True, ctor_result = Some suspended, resume_ok = True\<rparr>"

definition env_no_resume :: audio_env where
  "env_no_resume = \<lparr>has_window = True, ctor_result = Some suspended, resume_ok = False\<rparr>"

text \<open>The default settings with the volume slider at its minimum.\<close>

definition muted_settings :: MetronomeSettings where
  "muted_settings = \<lparr>bpm = 120, volume = 0, sound = click, accent = True, timeSignature = 4\<rparr>"

definition start_inv :: "metronome \<Rightarrow> bool" where
  "start_inv st \<longleftrightarrow> (start_awaiting st \<noteq> None \<longrightarrow> startInProgressRef st)"

text \<open>\<^verbatim>\<open>updateSettings({ bpm: 90 })\<close> on the mounted hook, as the tempo slider does.\<close>

definition bpm_only :: "nat \<Rightarrow> PartialSettings" where
  "bpm_only b = \<lparr>new_bpm = Some b, new_volume = None, new_sound = None, new_accent = None,
                 new_timeSignature = None\<rparr>"

definition configured_90 :: metronome where
  "configured_90 =
     updateSettings (current_render (useMetronome (Some suspended))) (bpm_only 90)
       (useMetronome (Some suspended))"

section \<open>Practice session timers\<close>

text \<open>
  \<^verbatim>\<open>MobilePracticeTimer.tsx\<close> and \<^verbatim>\<open>MobileOptimizedTimer.tsx\<close> declare the same
  \<^verbatim>\<open>PracticeSession\<close> and keep the same state variables (the tick counter is
  called \<^verbatim>\<open>seconds\<close> in the first and \<^verbatim>\<open>time\<close> in the second), so one record
  serves both. A \<^verbatim>\<open>Date\<close> is its \<^verbatim>\<open>getTime()\<close>, an integer number of milliseconds;
  every handler takes the value of \<^verbatim>\<open>new Date()\<close> as its argument \<open>now\<close>. The
  fields of a pause are \<^verbatim>\<open>start\<close> and \<^verbatim>\<open>end\<close> in the source. The wake-lock and
  metronome calls of the handlers do not touch this state; of them only the
  \<^verbatim>\<open>await\<close> is kept, as the point where a handler is suspended and other
  handlers can run.
\<close>

record pause =
  pause_start :: int
  pause_end :: "int option"

record PracticeSession =
  startTime :: int
  endTime :: "int option"
  duration :: nat
  session_notes :: string         \<comment> \<open>\<^verbatim>\<open>notes\<close>\<close>
  pauses :: "pause list"

text \<open>A row handed to \<^verbatim>\<open>supabase.from('practice_sessions').insert\<close>.\<close>

record practice_row =
  user_id :: string
  song_id :: string
  duration_minutes :: int
  row_notes :: string

record timer =
  user :: "string option"            \<comment> \<open>\<^verbatim>\<open>useAuth().user\<close>, its id\<close>
  song :: string                     \<comment> \<open>\<^verbatim>\<open>song.id\<close>\<close>
  seconds :: nat
  isRunning :: bool
  isPaused :: bool
  songNotes :: string
  isSaving :: bool
  sessionRef :: "PracticeSession option"
  practice_sessions :: "practice_row list"   \<comment> \<open>the rows inserted so far, oldest first\<close>

text \<open>
  \<^verbatim>\<open>Math.round(a / b)\<close> for integers \<open>a \<ge> 0\<close> and \<open>b > 0\<close>: the quotient rounded to
  the nearest integer, a half rounded up.
\<close>

definition Math_round_div :: "int \<Rightarrow> int \<Rightarrow> int" where
  "Math_round_div a b = (2 * a + b) div (2 * b)"

definition new_session :: "int \<Rightarrow> string \<Rightarrow> PracticeSession" where
  "new_session now n = \<lparr>startTime = now, endTime = None, duration = 0, session_notes = n, pauses = []\<rparr>"

text \<open>
  \<^verbatim>\<open>const lastPause = pauses[pauses.length - 1];
  if (lastPause && !lastPause.end) lastPause.end = new Date()\<close>
\<close>

definition close_last_pause :: "int \<Rightarrow> PracticeSession \<Rightarrow> PracticeSession" where
  "close_last_pause now s =
     (if pauses s = [] then s
      else if pause_end (last (pauses s)) = None
      then s\<lparr>pauses := butlast (pauses s) @ [(last (pauses s))\<lparr>pause_end := Some now\<rparr>]\<rparr>
      else s)"

definition push_pause :: "int \<Rightarrow> PracticeSession \<Rightarrow> PracticeSession" where
  "push_pause now s = s\<lparr>pauses := pauses s @ [\<lparr>pause_start = now, pause_end = None\<rparr>]\<rparr>"

text \<open>
  An \<^verbatim>\<open>async\<close> handler suspended at an \<^verbatim>\<open>await\<close>, as what it will do when it
  runs on: the start branch and the resume branch of
  \<^verbatim>\<open>MobilePracticeTimer.handlePlayPause\<close> after \<^verbatim>\<open>await enableWakeLock()\<close>, and
  \<^verbatim>\<open>handleStop\<close> after the \<^verbatim>\<open>await\<close> of the insert made by
  \<^verbatim>\<open>savePracticeSession\<close>, with the row handed to the insert and the
  \<^verbatim>\<open>songNotes\<close> of the closure.
\<close>

datatype continuation =
  AfterWakeLockStart
| AfterWakeLockResume
| AfterInsert practice_row string

text \<open>The component together with the handlers the event loop holds suspended.\<close>

record timer_loop =
  component :: timer
  awaiting :: "continuation list"

definition idle :: "timer \<Rightarrow> timer_loop" where
  "idle st = \<lparr>component = st, awaiting = []\<rparr>"

text \<open>The insert settles: the row is stored, or the call reports an error, which is logged.\<close>

definition insert_settles :: "bool \<Rightarrow> practice_row \<Rightarrow> timer \<Rightarrow> timer" where
  "insert_settles ok row st =
     (if ok then st\<lparr>practice_sessions := practice_sessions st @ [row]\<rparr> else st)"

subsection \<open>MobilePracticeTimer\<close>

definition MobilePracticeTimer :: "string option \<Rightarrow> string \<Rightarrow> string \<Rightarrow> int \<Rightarrow> timer" where
  "MobilePracticeTimer u sid song_notes now =
     \<lparr>user = u, song = sid, seconds = 0, isRunning = False, isPaused = False,
      songNotes = song_notes, isSaving = False,
      sessionRef = Some (new_session now []), practice_sessions = []\<rparr>"

text \<open>
  \<^verbatim>\<open>handlePlayPause\<close> up to its return or to \<^verbatim>\<open>await enableWakeLock()\<close>. The
  branch is chosen from \<^verbatim>\<open>isRunning\<close> and \<^verbatim>\<open>isPaused\<close> at the call; the start and
  resume branches write nothing before the \<^verbatim>\<open>await\<close>, the pause branch has no
  \<^verbatim>\<open>await\<close>.
\<close>

definition handlePlayPause :: "int \<Rightarrow> timer_loop \<Rightarrow> timer_loop" where
  "handlePlayPause now l =
     (if \<not> isRunning (component l) then
        l\<lparr>awaiting := awaiting l @ [AfterWakeLockStart]\<rparr>
      else if isPaused (component l) then
        l\<lparr>awaiting := awaiting l @ [AfterWakeLockResume]\<rparr>
      else
        l\<lparr>component := (component l)
             \<lparr>isPaused := True,
              sessionRef := map_option (push_pause now) (sessionRef (component l))\<rparr>\<rparr>)"

text \<open>The interval of the timer effect: it exists while \<^verbatim>\<open>isRunning && !isPaused\<close>.\<close>

definition mobile_tick :: "timer \<Rightarrow> timer" where
  "mobile_tick st = (if isRunning st \<and> \<not> isPaused st then st\<lparr>seconds := seconds st + 1\<rparr> else st)"

text \<open>
  \<^verbatim>\<open>session.pauses.forEach(pause => { const pauseEnd = pause.end || endTime;
  totalPauseTime += pauseEnd.getTime() - pause.start.getTime() })\<close>
\<close>

definition totalPauseTime :: "int \<Rightarrow> pause list \<Rightarrow> int" where
  "totalPauseTime endT ps =
     fold (\<lambda>p acc. acc + ((case pause_end p of Some e \<Rightarrow> e | None \<Rightarrow> endT) - pause_start p)) ps 0"

definition mobile_durationMinutes :: "int \<Rightarrow> PracticeSession \<Rightarrow> int" where
  "mobile_durationMinutes endT session =
     (let totalTime = endT - startTime session;
          practiceTime = max 0 (totalTime - totalPauseTime endT (pauses session))
      in Math_round_div practiceTime (1000 * 60))"

text \<open>
  \<^verbatim>\<open>savePracticeSession\<close> up to its \<^verbatim>\<open>await\<close>: \<open>None\<close> when it returns at its guard
  \<^verbatim>\<open>!user || !sessionRef.current || seconds === 0\<close>, otherwise the row it hands to
  the insert, computed with \<^verbatim>\<open>endTime = new Date()\<close> at the call.
\<close>

definition mobile_savePracticeSession :: "int \<Rightarrow> timer \<Rightarrow> practice_row option" where
  "mobile_savePracticeSession now st =
     (case (user st, sessionRef st) of
        (Some uid, Some session) \<Rightarrow>
          if seconds st = 0 then None
          else Some \<lparr>user_id = uid, song_id = song st,
                     duration_minutes = mobile_durationMinutes now session,
                     row_notes = songNotes st\<rparr>
      | _ \<Rightarrow> None)"

text \<open>
  \<^verbatim>\<open>handleStop\<close> up to its return or to the \<^verbatim>\<open>await\<close> of the insert. When
  \<^verbatim>\<open>savePracticeSession\<close> returns at its guard, \<^verbatim>\<open>handleStop\<close> runs on without
  another handler in between and clears the flags.
\<close>

definition mobile_handleStop :: "int \<Rightarrow> timer_loop \<Rightarrow> timer_loop" where
  "mobile_handleStop now l =
     (case mobile_savePracticeSession now (component l) of
        None \<Rightarrow>
          l\<lparr>component := (component l)\<lparr>isRunning := False, isPaused := False, seconds := 0\<rparr>\<rparr>
      | Some row \<Rightarrow>
          l\<lparr>component := (component l)\<lparr>isSaving := True\<rparr>,
            awaiting := awaiting l @ [AfterInsert row (songNotes (component l))]\<rparr>)"

text \<open>
  What a suspended handler of \<^verbatim>\<open>MobilePracticeTimer\<close> does when it runs on at
  time \<open>now\<close>; \<open>ok\<close> says whether the insert succeeded. After the wake lock:
  the writes of the start or resume branch. After the insert:
  \<^verbatim>\<open>setIsSaving(false)\<close>, then \<^verbatim>\<open>handleStop\<close> clears the flags and the counter.
  What \<^verbatim>\<open>handleStop\<close> does after that, \<^verbatim>\<open>await disableWakeLock()\<close> and the call of
  the \<^verbatim>\<open>onStop\<close> property, writes nothing of this state.
\<close>

definition mobile_resume :: "continuation \<Rightarrow> bool \<Rightarrow> int \<Rightarrow> timer \<Rightarrow> timer" where
  "mobile_resume c ok now st =
     (case c of
        AfterWakeLockStart \<Rightarrow>
          st\<lparr>isRunning := True, isPaused := False,
             sessionRef := map_option (\<lambda>s. s\<lparr>startTime := now\<rparr>) (sessionRef st)\<rparr>
      | AfterWakeLockResume \<Rightarrow>
          st\<lparr>isPaused := False, sessionRef := map_option (close_last_pause now) (sessionRef st)\<rparr>
      | AfterInsert row closure_notes \<Rightarrow>
          (insert_settles ok row st)
            \<lparr>isSaving := False, isRunning := False, isPaused := False, seconds := 0\<rparr>)"

text \<open>The event loop runs on the \<open>k\<close>-th suspended handler, if there is one.\<close>

definition mobile_continue :: "nat \<Rightarrow> bool \<Rightarrow> int \<Rightarrow> timer_loop \<Rightarrow> timer_loop" where
  "mobile_continue k ok now l =
     (if k < length (awaiting l)
      then \<lparr>component = mobile_resume (awaiting l ! k) ok now (component l),
            awaiting = take k (awaiting l) @ drop (Suc k) (awaiting l)\<rparr>
      else l)"

text \<open>
  A press of the play/pause button, and a press of the stop button, with
  nothing else running before the handler has finished.
\<close>

definition playPause_alone :: "int \<Rightarrow> timer \<Rightarrow> timer" where
  "playPause_alone now st = component (mobile_continue 0 True now (handlePlayPause now (idle st)))"

definition mobile_stop_alone :: "bool \<Rightarrow> int \<Rightarrow> timer \<Rightarrow> timer" where
  "mobile_stop_alone ok now st = component (mobile_continue 0 ok now (mobile_handleStop now (idle st)))"

subsection \<open>MobileOptimizedTimer\<close>





text \<open>
  \<^verbatim>\<open>savePracticeSession\<close> up to its \<^verbatim>\<open>await\<close>: \<open>None\<close> when it returns at its guard
  \<^verbatim>\<open>!user || !sessionRef.current\<close> or skips the insert because \<^verbatim>\<open>durationMinutes\<close>
  is 0, otherwise the row it hands to the insert.
\<close>

definition optimized_savePracticeSession :: "timer \<Rightarrow> practice_row option" where
  "optimized_savePracticeSession st =
     (case (user st, sessionRef st) of
        (Some uid, Some session) \<Rightarrow>
          (let durationMinutes = Math_round_div (int (duration session)) 60
           in if durationMinutes > 0
              then Some \<lparr>user_id = uid, song_id = song st, duration_minutes = durationMinutes,
                         row_notes = songNotes st\<rparr>
              else None)
      | _ \<Rightarrow> None)"

text \<open>
  \<^verbatim>\<open>handleStop\<close> up to its return or to the \<^verbatim>\<open>await\<close> of the insert: the guard,
  the flags cleared, the end time and notes written to the session. When no
  insert is awaited it runs on at once: \<^verbatim>\<open>setTime(0)\<close> and a fresh session.
\<close>

definition optimized_handleStop :: "int \<Rightarrow> timer_loop \<Rightarrow> timer_loop" where
  "optimized_handleStop now l =
     (let st = component l
      in if seconds st = 0 \<or> isSaving st then l
         else
           (let st1 = st\<lparr>isRunning := False, isPaused := False,
                         sessionRef := map_option
                           (\<lambda>s. s\<lparr>endTime := Some now, session_notes := songNotes st\<rparr>)
                           (sessionRef st)\<rparr>
            in case optimized_savePracticeSession st1 of
                 None \<Rightarrow>
                   l\<lparr>component := st1\<lparr>isSaving := False, seconds := 0,
                                       sessionRef := Some (new_session now (songNotes st))\<rparr>\<rparr>
               | Some row \<Rightarrow>
                   l\<lparr>component := st1\<lparr>isSaving := True\<rparr>,
                     awaiting := awaiting l @ [AfterInsert row (songNotes st)]\<rparr>))"

text \<open>
  The suspended \<^verbatim>\<open>handleStop\<close> runs on at time \<open>now\<close>: \<^verbatim>\<open>setIsSaving(false)\<close>,
  \<^verbatim>\<open>setTime(0)\<close>, and a fresh session with the \<^verbatim>\<open>songNotes\<close> of its closure. This
  component suspends no other handler.
\<close>

definition optimized_resume :: "continuation \<Rightarrow> bool \<Rightarrow> int \<Rightarrow> timer \<Rightarrow> timer" where
  "optimized_resume c ok now st =
     (case c of
        AfterInsert row closure_notes \<Rightarrow>
          (insert_settles ok row st)
            \<lparr>isSaving := False, seconds := 0,
             sessionRef := Some (new_session now closure_notes)\<rparr>
      | _ \<Rightarrow> st)"

definition optimized_continue :: "nat \<Rightarrow> bool \<Rightarrow> int \<Rightarrow> timer_loop \<Rightarrow> timer_loop" where
  "optimized_continue k ok now l =
     (if k < length (awaiting l)
      then \<lparr>component = optimized_resume (awaiting l ! k) ok now (component l),
            awaiting = take k (awaiting l) @ drop (Suc k) (awaiting l)\<rparr>
      else l)"


text \<open>A press of the stop button with nothing else running before it has finished.\<close>

definition optimized_stop_alone :: "bool \<Rightarrow> int \<Rightarrow> timer \<Rightarrow> timer" where
  "optimized_stop_alone ok now st =
     component (optimized_continue 0 ok now (optimized_handleStop now (idle st)))"

subsection \<open>What the specification says of both\<close>

text \<open>
  The duration policy in the specification's words: the span from start to stop
  minus the summed lengths of the pause intervals (a pause still open at the
  stop ends there), rounded to the nearest whole minute, and at least 1.
\<close>

definition pause_length :: "int \<Rightarrow> pause \<Rightarrow> int" where
  "pause_length t_stop p = (case pause_end p of Some e \<Rightarrow> e | None \<Rightarrow> t_stop) - pause_start p"

definition spec_duration_minutes :: "int \<Rightarrow> int \<Rightarrow> pause list \<Rightarrow> int" where
  "spec_duration_minutes t_start t_stop ps =
     max 1 (Math_round_div ((t_stop - t_start) - sum_list (map (pause_length t_stop) ps)) 60000)"














chapter \<open>Properties\<close>

section \<open>Wake lock\<close>

lemma enableWakeLock_flag:
  "fst (enableWakeLock env st) = Inr (fallback_succeeds env st \<or> native_succeeds env)"
  by (auto simp: enableWakeLock_def enable_method1_def enable_method2_def initNoSleep_def
      new_NoSleep_def NoSleep_enable_def wakeLock_request_def fallback_succeeds_def
      native_succeeds_def split: option.splits sum.splits prod.splits if_splits)

lemma enableWakeLock_active:
  "isWakeLockActive (snd (enableWakeLock env st)) = (fallback_succeeds env st \<or> native_succeeds env)"
  by (auto simp: enableWakeLock_def enable_method1_def enable_method2_def initNoSleep_def
      new_NoSleep_def NoSleep_enable_def wakeLock_request_def fallback_succeeds_def
      native_succeeds_def split: option.splits sum.splits prod.splits if_splits)

text \<open>
  C9. \<^verbatim>\<open>enableWakeLock\<close> never throws: its outcome is always a resolved boolean.
  When both mechanisms fail it resolves to false and \<open>isWakeLockActive\<close> is false
  afterwards; when either succeeds it resolves to true.
\<close>

theorem enableWakeLock_both_fail_or_either:
  "(\<exists>b. fst (enableWakeLock env st) = Inr b)
   \<and> (\<not> fallback_succeeds env st \<and> \<not> native_succeeds env \<longrightarrow>
        fst (enableWakeLock env st) = Inr False
        \<and> \<not> isWakeLockActive (snd (enableWakeLock env st)))
   \<and> (fallback_succeeds env st \<or> native_succeeds env \<longrightarrow>
        fst (enableWakeLock env st) = Inr True)"
  by (simp add: enableWakeLock_flag enableWakeLock_active)

theorem enableWakeLock_both_fail_witness:
  "\<not> fallback_succeeds
       \<lparr>window_defined = True, nosleep_ctor_ok = True, nosleep_enable_ok = False,
        native_present = True, native_request_ok = False\<rparr>
       \<lparr>isWakeLockActive = False, isWakeLockSupported = True, wakeLockRef = None,
        noSleepRef = None, hasInitialized = True\<rparr>
   \<and> \<not> native_succeeds
       \<lparr>window_defined = True, nosleep_ctor_ok = True, nosleep_enable_ok = False,
        native_present = True, native_request_ok = False\<rparr>
   \<and> fst (enableWakeLock
       \<lparr>window_defined = True, nosleep_ctor_ok = True, nosleep_enable_ok = False,
        native_present = True, native_request_ok = False\<rparr>
       \<lparr>isWakeLockActive = False, isWakeLockSupported = True, wakeLockRef = None,
        noSleepRef = None, hasInitialized = True\<rparr>) = Inr False
   \<and> native_succeeds
       \<lparr>window_defined = True, nosleep_ctor_ok = False, nosleep_enable_ok = False,
        native_present = True, native_request_ok = True\<rparr>
   \<and> fst (enableWakeLock
       \<lparr>window_defined = True, nosleep_ctor_ok = False, nosleep_enable_ok = False,
        native_present = True, native_request_ok = True\<rparr>
       \<lparr>isWakeLockActive = False, isWakeLockSupported = True, wakeLockRef = None,
        noSleepRef = None, hasInitialized = True\<rparr>) = Inr True"
  using enableWakeLock_both_fail_or_either
    [of "\<lparr>window_defined = True, nosleep_ctor_ok = True, nosleep_enable_ok = False,
          native_present = True, native_request_ok = False\<rparr>"
        "\<lparr>isWakeLockActive = False, isWakeLockSupported = True, wakeLockRef = None,
          noSleepRef = None, hasInitialized = True\<rparr>"]
    enableWakeLock_both_fail_or_either
    [of "\<lparr>window_defined = True, nosleep_ctor_ok = False, nosleep_enable_ok = False,
          native_present = True, native_request_ok = True\<rparr>"
        "\<lparr>isWakeLockActive = False, isWakeLockSupported = True, wakeLockRef = None,
          noSleepRef = None, hasInitialized = True\<rparr>"]
  by (simp add: fallback_succeeds_def native_succeeds_def)

section \<open>Debounced slider\<close>

lemma handleChanges_interacting:
  "isInteractingRef st \<Longrightarrow> cs \<noteq> [] \<Longrightarrow>
   handleChanges cs st = st\<lparr>valueRef := snd (last cs), value_st := snd (last cs)\<rparr>"
proof (induction cs arbitrary: st)
  case Nil
  then show ?case by simp
next
  case (Cons c cs)
  show ?case
  proof (cases "cs = []")
    case True
    with Cons.prems show ?thesis by (simp add: handleChanges_def handleChange_def)
  next
    case False
    have "handleChanges (c # cs) st = handleChanges cs (handleChange (fst c) (snd c) st)"
      by (simp add: handleChanges_def)
    also have "\<dots> = (handleChange (fst c) (snd c) st)
                 \<lparr>valueRef := snd (last cs), value_st := snd (last cs)\<rparr>"
      using Cons.prems False by (intro Cons.IH) (simp_all add: handleChange_def)
    finally show ?thesis using Cons.prems False by (simp add: handleChange_def)
  qed
qed

lemma handleStart_clears:
  "no_stray_timer st \<Longrightarrow>
   handleStart st = st\<lparr>isInteractingRef := True, isInteracting := True, timers := [],
                        timeoutRef := None, isPending := False\<rparr>"
  by (cases "timeoutRef st")
     (auto simp: handleStart_def cancelSave_def clearTimeout_def no_stray_timer_def
        filter_empty_conv)

lemma interaction_state:
  assumes "no_stray_timer st" and "cs \<noteq> []"
  shows "handleEnd te (handleChanges cs (handleStart st)) =
         st\<lparr>isInteractingRef := False, isInteracting := False, isPending := True,
            valueRef := snd (last cs), value_st := snd (last cs),
            timers := [\<lparr>tid = nextId st, due = te + debounceMs st, callback = SaveCurrent\<rparr>],
            timeoutRef := Some (nextId st), nextId := Suc (nextId st)\<rparr>"
proof -
  have "isInteractingRef (handleStart st)"
    using assms(1) by (simp add: handleStart_clears)
  then show ?thesis
    using assms
    by (simp add: handleChanges_interacting handleStart_clears handleEnd_def setTimeout_ref_def)
qed

lemma foldl_run_callback_frame:
  "timers (foldl run_callback s ts) = timers s
   \<and> timeoutRef (foldl run_callback s ts) = timeoutRef s
   \<and> isInteractingRef (foldl run_callback s ts) = isInteractingRef s"
  by (induction ts arbitrary: s) (simp_all add: run_callback_def)

lemma handleChanges_interacting_frame:
  "isInteractingRef st \<Longrightarrow>
   timers (handleChanges cs st) = timers st \<and> timeoutRef (handleChanges cs st) = timeoutRef st
   \<and> isInteractingRef (handleChanges cs st) \<and> nextId (handleChanges cs st) = nextId st"
  by (cases "cs = []") (simp_all add: handleChanges_interacting, simp add: handleChanges_def)

lemma settled_no_stray:
  "slider_settled st \<Longrightarrow> no_stray_timer st \<and> \<not> isInteractingRef st"
proof (induction rule: slider_settled.induct)
  case (settled_mount v ms)
  show ?case by (simp add: no_stray_timer_def useDebouncedSlider_def)
next
  case (settled_interaction st te cs)
  then have s: "handleStart st = st\<lparr>isInteractingRef := True, isInteracting := True, timers := [],
                        timeoutRef := None, isPending := False\<rparr>"
    by (simp add: handleStart_clears)
  then have "isInteractingRef (handleStart st)" by simp
  from handleChanges_interacting_frame [OF this, of cs] s
  have "timers (handleChanges cs (handleStart st)) = []" by simp
  then show ?case by (simp add: no_stray_timer_def handleEnd_def setTimeout_ref_def)
next
  case (settled_change st now v)
  then have "filter (\<lambda>t. tid t \<noteq> i) (timers st) = []" if "timeoutRef st = Some i" for i
    using that by (auto simp: no_stray_timer_def filter_empty_conv)
  moreover from settled_change have "timers st = []" if "timeoutRef st = None"
    using that by (cases "timers st") (auto simp: no_stray_timer_def)
  ultimately show ?case using settled_change
    by (cases "timeoutRef st")
       (simp_all add: no_stray_timer_def handleChange_def cancelSave_def clearTimeout_def
         setTimeout_ref_def Let_def)
next
  case (settled_render st v)
  then show ?case by (simp add: no_stray_timer_def rerender_def initialValue_effect_def)
next
  case (settled_timer st now)
  then show ?case by (simp add: no_stray_timer_def advance_def foldl_run_callback_frame)
qed

text \<open>
  C7. One interaction: \<^verbatim>\<open>onStart\<close>, then \<open>n \<ge> 1\<close> calls of \<^verbatim>\<open>onChange\<close>, then
  \<^verbatim>\<open>onEnd\<close> at time \<open>te\<close>, begun when no timeout other than the one in
  \<^verbatim>\<open>timeoutRef\<close> is pending, as is the case at mount and between whole
  interactions (\<open>settled_no_stray\<close>). Up to any time before \<open>te + debounceMs\<close> nothing has
  been saved; from \<open>te + debounceMs\<close> on exactly one save has happened, of the
  last value passed to \<^verbatim>\<open>onChange\<close>, and no timeout is left. The value is read
  when the timeout fires: if a render overwrites the live value between
  \<^verbatim>\<open>onEnd\<close> and the firing, that later value is the one saved.
\<close>

theorem single_interaction_saves_last_value_once:
  assumes "no_stray_timer st" and "cs \<noteq> []"
  shows "saved (advance now (handleEnd te (handleChanges cs (handleStart st)))) =
           (if now < te + debounceMs st then saved st else saved st @ [snd (last cs)])
         \<and> (te + debounceMs st \<le> now \<longrightarrow>
              timers (advance now (handleEnd te (handleChanges cs (handleStart st)))) = [])
         \<and> (te + debounceMs st \<le> now \<longrightarrow> w \<noteq> initialValue st \<longrightarrow>
              saved (advance now (rerender w (handleEnd te (handleChanges cs (handleStart st)))))
                = saved st @ [w])"
  using assms
  by (simp add: interaction_state advance_def run_callback_def rerender_def
      initialValue_effect_def)

theorem single_interaction_witness:
  "no_stray_timer (useDebouncedSlider (0::int) 1000) \<and> [(100, 3), (200, 7::int)] \<noteq> []
   \<and> saved (advance 1499 (handleEnd 500 (handleChanges [(100, 3), (200, 7)]
        (handleStart (useDebouncedSlider (0::int) 1000))))) = []
   \<and> saved (advance 1500 (handleEnd 500 (handleChanges [(100, 3), (200, 7)]
        (handleStart (useDebouncedSlider (0::int) 1000))))) = [7]
   \<and> saved (advance 1500 (rerender 9 (handleEnd 500 (handleChanges [(100, 3), (200, 7)]
        (handleStart (useDebouncedSlider (0::int) 1000)))))) = [9]"
proof -
  have a: "no_stray_timer (useDebouncedSlider (0::int) 1000)"
    by (simp add: no_stray_timer_def useDebouncedSlider_def)
  have b: "[(100, 3), (200, 7::int)] \<noteq> ([]::(nat \<times> int) list)" by simp
  show ?thesis
    using a single_interaction_saves_last_value_once [OF a b, of 1499 500 9]
      single_interaction_saves_last_value_once [OF a b, of 1500 500 9]
    by (simp add: useDebouncedSlider_def)
qed

lemma slider_refs_agree:
  "slider_reachable st \<Longrightarrow> isInteracting st = isInteractingRef st"
proof (induction rule: slider_reachable.induct)
  case (timer st now)
  have "\<And>s. isInteracting (foldl run_callback s ts) = isInteracting s
          \<and> isInteractingRef (foldl run_callback s ts) = isInteractingRef s"
    for ts :: "'a timeout list"
    by (induction ts) (simp_all add: run_callback_def)
  with timer show ?case by (simp add: advance_def)
qed (auto simp: useDebouncedSlider_def handleStart_def handleEnd_def handleChange_def
      cancelSave_def clearTimeout_def setTimeout_ref_def rerender_def initialValue_effect_def
      Let_def split: option.splits)

text \<open>
  C10. In any state the hook can reach: while \<open>isInteracting\<close> is true, a render
  with a new \<^verbatim>\<open>initialValue\<close> changes nothing but the recorded prop, so the live
  value and \<^verbatim>\<open>valueRef\<close> keep their values; the update is not applied later
  either, neither by the \<^verbatim>\<open>onEnd\<close> that follows nor by a further render with the
  same prop. While \<open>isInteracting\<close> is false, a changed \<^verbatim>\<open>initialValue\<close> overwrites
  both.
\<close>

theorem initialValue_dropped_while_interacting:
  assumes "slider_reachable st"
  shows "(isInteracting st \<longrightarrow>
            rerender v st = st\<lparr>initialValue := v\<rparr>
          \<and> value_st (rerender v st) = value_st st
          \<and> valueRef (rerender v st) = valueRef st
          \<and> value_st (handleEnd now (rerender v st)) = value_st st
          \<and> valueRef (handleEnd now (rerender v st)) = valueRef st
          \<and> rerender v (handleEnd now (rerender v st)) = handleEnd now (rerender v st))
       \<and> (\<not> isInteracting st \<longrightarrow> v \<noteq> initialValue st \<longrightarrow>
            value_st (rerender v st) = v \<and> valueRef (rerender v st) = v)"
  using slider_refs_agree [OF assms]
  by (simp add: rerender_def initialValue_effect_def handleEnd_def setTimeout_ref_def)

theorem initialValue_dropped_witness:
  "slider_reachable (handleChange 10 (7::int) (handleStart (useDebouncedSlider 5 1000)))
   \<and> isInteracting (handleChange 10 (7::int) (handleStart (useDebouncedSlider 5 1000)))
   \<and> value_st (rerender 9 (handleChange 10 (7::int) (handleStart (useDebouncedSlider 5 1000)))) = 7
   \<and> value_st (handleEnd 20 (rerender 9
        (handleChange 10 (7::int) (handleStart (useDebouncedSlider 5 1000))))) = 7
   \<and> slider_reachable (useDebouncedSlider (5::int) 1000)
   \<and> \<not> isInteracting (useDebouncedSlider (5::int) 1000)
   \<and> value_st (rerender 9 (useDebouncedSlider (5::int) 1000)) = 9"
proof -
  have r0: "slider_reachable (useDebouncedSlider (5::int) 1000)"
    by (rule slider_reachable.mount)
  have r1: "slider_reachable (handleChange 10 (7::int) (handleStart (useDebouncedSlider 5 1000)))"
    by (intro slider_reachable.onChange slider_reachable.onStart slider_reachable.mount)
  have i1: "isInteracting (handleChange 10 (7::int) (handleStart (useDebouncedSlider 5 1000)))"
    by (simp add: useDebouncedSlider_def handleStart_def handleChange_def cancelSave_def)
  have i0: "\<not> isInteracting (useDebouncedSlider (5::int) 1000)"
    by (simp add: useDebouncedSlider_def)
  have v0: "(9::int) \<noteq> initialValue (useDebouncedSlider (5::int) 1000)"
    by (simp add: useDebouncedSlider_def)
  have v1: "value_st (handleChange 10 (7::int) (handleStart (useDebouncedSlider 5 1000))) = 7"
    by (simp add: useDebouncedSlider_def handleStart_def handleChange_def cancelSave_def)
  show ?thesis
    using r0 r1 i0 i1 v0 v1 initialValue_dropped_while_interacting [OF r1, of 9 20]
      initialValue_dropped_while_interacting [OF r0, of 9 20]
    by metis
qed

section \<open>Metronome\<close>

lemma playBeat_eq:
  "audioContextRef st \<noteq> None \<Longrightarrow>
   playBeat r now st =
     st\<lparr>sounds := sounds st @ [beat_pulse (r_settings r) (beatCountRef st) now],
        beatCountRef := Suc (beatCountRef st)\<rparr>"
  by (auto simp: playBeat_def createSound_def beat_pulse_def is_accent_beat_def accent_pulse_def
      regular_pulse_def Let_def)

lemma interval_callback_eq:
  "audioContextRef st \<noteq> None \<Longrightarrow>
   interval_callback s now st =
     st\<lparr>sounds := sounds st @ [beat_pulse s (beatCountRef st) now],
        beatCountRef := Suc (beatCountRef st),
        currentBeat := map_option (\<lambda>m. m + 1) (js_mod (Suc (beatCountRef st)) (timeSignature s))\<rparr>"
  by (auto simp: interval_callback_def createSound_def beat_pulse_def is_accent_beat_def
      accent_pulse_def regular_pulse_def Let_def)

lemma start_run_eq:
  "audioContextRef st \<noteq> None \<Longrightarrow>
   start_run r now st =
     st\<lparr>isPlaying := True,
        sounds := sounds st @ [beat_pulse (r_settings r) 0 now],
        beatCountRef := Suc 0,
        intervals := intervals st @
          [\<lparr>iid = next_timer st, delay = period r, next_due = now + period r,
            captured = r_settings r\<rparr>],
        intervalRef := Some (next_timer st),
        next_timer := Suc (next_timer st)\<rparr>"
  by (simp add: start_run_def playBeat_eq period_def Let_def)

lemma find_skip:
  "\<forall>t \<in> set xs. \<not> P t \<Longrightarrow> find P (xs @ ys) = find P ys"
  by (induction xs) simp_all

lemma map_skip:
  "\<forall>t \<in> set xs. f t = t \<Longrightarrow> map f xs = xs"
  by (induction xs) simp_all

lemma interval_fires_own:
  assumes "audioContextRef st \<noteq> None"
    and "intervals st = old @ [\<lparr>iid = i, delay = d, next_due = t, captured = s\<rparr>]"
    and "\<forall>u \<in> set old. iid u \<noteq> i"
  shows "interval_fires i st =
     st\<lparr>sounds := sounds st @ [beat_pulse s (beatCountRef st) t],
        beatCountRef := Suc (beatCountRef st),
        currentBeat := map_option (\<lambda>m. m + 1) (js_mod (Suc (beatCountRef st)) (timeSignature s)),
        intervals := old @ [\<lparr>iid = i, delay = d, next_due = t + d, captured = s\<rparr>]\<rparr>"
proof -
  have f: "find (\<lambda>u. iid u = i) (old @ [\<lparr>iid = i, delay = d, next_due = t, captured = s\<rparr>])
             = Some \<lparr>iid = i, delay = d, next_due = t, captured = s\<rparr>"
    using assms(3) by (simp add: find_skip)
  have m: "map (\<lambda>u. if iid u = i then u\<lparr>next_due := next_due u + delay u\<rparr> else u) old = old"
    using assms(3) by (intro map_skip) simp
  show ?thesis
    using assms(1) by (simp add: interval_fires_def f interval_callback_eq assms(2) m)
qed

lemma run_after_start:
  assumes "audioContextRef st \<noteq> None" and "timer_ids_fresh st"
  shows "(interval_fires (next_timer st) ^^ k) ((start_run r now st)\<lparr>startInProgressRef := False\<rparr>) =
     st\<lparr>startInProgressRef := False, isPlaying := True,
        sounds := sounds st @ map (\<lambda>j. beat_pulse (r_settings r) j (now + of_nat j * period r)) [0..<Suc k],
        beatCountRef := Suc k,
        currentBeat := (if k = 0 then currentBeat st
                        else map_option (\<lambda>m. m + 1) (js_mod (Suc k) (timeSignature (r_settings r)))),
        intervals := intervals st @
          [\<lparr>iid = next_timer st, delay = period r, next_due = now + of_nat (Suc k) * period r,
            captured = r_settings r\<rparr>],
        intervalRef := Some (next_timer st),
        next_timer := Suc (next_timer st)\<rparr>"
proof (induction k)
  case 0
  show ?case using assms(1) by (simp add: start_run_eq)
next
  case (Suc k)
  have old: "\<forall>u \<in> set (intervals st). iid u \<noteq> next_timer st"
    using assms(2) by (auto simp: timer_ids_fresh_def)
  show ?case
    apply (simp only: funpow.simps o_apply Suc.IH)
    apply (subst interval_fires_own [where old = "intervals st" and d = "period r"
          and t = "now + of_nat (Suc k) * period r" and s = "r_settings r"])
    using assms(1) old apply (simp_all add: algebra_simps)
    done
qed


lemma start_succeeds:
  assumes "\<not> r_isPlaying r" and "\<not> startInProgressRef st" and "audio_starts env st"
  shows "\<exists>st0. start r env now st = (Inr (), (start_run r now st0)\<lparr>startInProgressRef := False\<rparr>)
           \<and> audioContextRef st0 \<noteq> None \<and> sounds st0 = sounds st
           \<and> intervals st0 = intervals st \<and> next_timer st0 = next_timer st"
proof -
  from assms(3) obtain c where c: "context_after_init env st = Some c"
    and ok: "c = suspended \<longrightarrow> resume_ok env"
    by (auto simp: audio_starts_def init_fails_def resume_fails_def)
  let ?st1 = "st\<lparr>startInProgressRef := True\<rparr>"
  let ?st2 = "if audioContextRef st = None then ?st1\<lparr>audioContextRef := Some c\<rparr> else ?st1"
  have ctx: "audioContextRef ?st2 = Some c"
    using c by (auto simp: context_after_init_def split: option.splits if_splits)
  show ?thesis
  proof (cases "c = suspended")
    case True
    let ?st0 = "?st2\<lparr>start_awaiting := None, audioContextRef := Some running\<rparr>"
    have "start r env now st = (Inr (), (start_run r now ?st0)\<lparr>startInProgressRef := False\<rparr>)"
      using True c ok assms(1,2)
      by (auto simp: start_def start_begin_def start_resume_def context_after_init_def Let_def
          split: option.splits if_splits)
    then show ?thesis by (intro exI [of _ ?st0]) simp
  next
    case False
    have "start r env now st = (Inr (), (start_run r now ?st2)\<lparr>startInProgressRef := False\<rparr>)"
      using False c assms(1,2)
      by (auto simp: start_def start_begin_def context_after_init_def Let_def
          split: option.splits if_splits)
    then show ?thesis using ctx by (intro exI [of _ ?st2]) simp
  qed
qed

lemma fresh_frame:
  "intervals st' = intervals st \<Longrightarrow> next_timer st' = next_timer st \<Longrightarrow>
   timer_ids_fresh st \<Longrightarrow> timer_ids_fresh st'"
  by (simp add: timer_ids_fresh_def)

lemma fresh_start_run: "timer_ids_fresh st \<Longrightarrow> timer_ids_fresh (start_run r now st)"
  by (auto simp: timer_ids_fresh_def start_run_def playBeat_def createSound_def Let_def
      less_Suc_eq split: option.splits)

lemma fresh_start_run_upd:
  "timer_ids_fresh st \<Longrightarrow> timer_ids_fresh ((start_run r now st)\<lparr>startInProgressRef := b\<rparr>)"
  using fresh_start_run [of st r now] by (simp add: timer_ids_fresh_def)

lemma fresh_stop: "timer_ids_fresh st \<Longrightarrow> timer_ids_fresh (stop st)"
  by (auto simp: timer_ids_fresh_def stop_def split: option.splits)

lemma fresh_start_begin:
  assumes "timer_ids_fresh st"
  shows "timer_ids_fresh (snd (start_begin r env now st))"
proof -
  have a: "timer_ids_fresh (st\<lparr>startInProgressRef := True\<rparr>)"
    using assms by (simp add: timer_ids_fresh_def)
  have b: "timer_ids_fresh (st\<lparr>startInProgressRef := True, audioContextRef := Some c\<rparr>)" for c
    using assms by (simp add: timer_ids_fresh_def)
  have f: "timer_ids_fresh (start_failed s)" if "timer_ids_fresh s" for s
    using that by (simp add: timer_ids_fresh_def start_failed_def)
  have w: "timer_ids_fresh (s\<lparr>start_awaiting := x\<rparr>)" if "timer_ids_fresh s" for s x
    using that by (simp add: timer_ids_fresh_def)
  show ?thesis
    using assms a b f w fresh_start_run_upd
    by (simp add: start_begin_def Let_def split: option.splits)
qed

lemma fresh_start_resume:
  assumes "timer_ids_fresh st"
  shows "timer_ids_fresh (snd (start_resume ok now st))"
proof (cases "start_awaiting st")
  case None
  with assms show ?thesis by (simp add: start_resume_def)
next
  case (Some r)
  have a: "timer_ids_fresh (st\<lparr>start_awaiting := None, audioContextRef := Some running\<rparr>)"
    using assms by (simp add: timer_ids_fresh_def)
  have b: "timer_ids_fresh (start_failed (st\<lparr>start_awaiting := None\<rparr>))"
    using assms by (simp add: timer_ids_fresh_def start_failed_def)
  show ?thesis
    using Some b fresh_start_run_upd [OF a]
    by (simp add: start_resume_def Let_def)
qed

lemma fresh_resume_settles:
  assumes "timer_ids_fresh st"
  shows "timer_ids_fresh (resume_settles ok now st)"
proof (cases "start_awaiting st")
  case None
  with assms show ?thesis by (simp add: resume_settles_def)
next
  case (Some r)
  obtain res st1 where p: "start_resume ok now st = (res, st1)" by (cases "start_resume ok now st")
  with fresh_start_resume [OF assms, of ok now] have "timer_ids_fresh st1" by simp
  then have "timer_ids_fresh (st1\<lparr>toggle_awaiting := x\<rparr>)" for x
    by (simp add: timer_ids_fresh_def)
  with Some p \<open>timer_ids_fresh st1\<close> show ?thesis by (simp add: resume_settles_def)
qed

lemma fresh_toggle:
  assumes "timer_ids_fresh st"
  shows "timer_ids_fresh (snd (toggle r env now st))"
proof (cases "toggleInProgressRef st")
  case True
  with assms show ?thesis by (simp add: toggle_def)
next
  case False
  have a: "timer_ids_fresh (st\<lparr>toggleInProgressRef := True\<rparr>)"
    using assms by (simp add: timer_ids_fresh_def)
  show ?thesis
  proof (cases "r_isPlaying r")
    case True
    have "timer_ids_fresh ((stop (st\<lparr>toggleInProgressRef := True\<rparr>))\<lparr>reset_timeouts := n\<rparr>)" for n
      using fresh_stop [OF a] by (simp add: timer_ids_fresh_def)
    with True False show ?thesis by (simp add: toggle_def Let_def)
  next
    case notPlaying: False
    obtain out st2 where p: "start_begin r env now (st\<lparr>toggleInProgressRef := True\<rparr>) = (out, st2)"
      by (cases "start_begin r env now (st\<lparr>toggleInProgressRef := True\<rparr>)")
    with fresh_start_begin [OF a, of r env now] have "timer_ids_fresh st2" by simp
    then have "timer_ids_fresh (st2\<lparr>toggle_awaiting := x\<rparr>)" for x
      by (simp add: timer_ids_fresh_def)
    with False notPlaying p show ?thesis
      by (cases out) (simp_all add: toggle_def Let_def)
  qed
qed

lemma fresh_toggle_continue:
  "timer_ids_fresh st \<Longrightarrow> timer_ids_fresh (snd (toggle_continue st))"
  by (auto simp: timer_ids_fresh_def toggle_continue_def split: option.splits toggle_wait.splits)

lemma fresh_reset_fires: "timer_ids_fresh st \<Longrightarrow> timer_ids_fresh (reset_fires st)"
  by (simp add: timer_ids_fresh_def reset_fires_def)

lemma fresh_interval_fires: "timer_ids_fresh st \<Longrightarrow> timer_ids_fresh (interval_fires i st)"
  by (auto simp: timer_ids_fresh_def interval_fires_def interval_callback_def createSound_def
      Let_def split: option.splits)

lemma fresh_updateSettings: "timer_ids_fresh st \<Longrightarrow> timer_ids_fresh (updateSettings r p st)"
proof -
  assume a: "timer_ids_fresh st"
  then have b: "timer_ids_fresh (st\<lparr>settings := x\<rparr>)" for x
    by (simp add: timer_ids_fresh_def)
  have "timer_ids_fresh ((stop (st\<lparr>settings := x\<rparr>))\<lparr>restart_timeouts := y\<rparr>)" for x y
    using fresh_stop [OF b [of x]] by (simp add: timer_ids_fresh_def)
  with b show ?thesis by (simp add: updateSettings_def Let_def)
qed

lemma fresh_restart_fires: "timer_ids_fresh st \<Longrightarrow> timer_ids_fresh (restart_fires env now st)"
proof (cases "restart_timeouts st")
  case Nil
  assume "timer_ids_fresh st"
  with Nil show ?thesis by (simp add: restart_fires_def)
next
  case (Cons r rs)
  assume "timer_ids_fresh st"
  then have "timer_ids_fresh (st\<lparr>restart_timeouts := rs\<rparr>)" by (simp add: timer_ids_fresh_def)
  from fresh_start_begin [OF this] Cons show ?thesis by (simp add: restart_fires_def)
qed

lemma metro_ids_fresh: "metro_reachable st \<Longrightarrow> timer_ids_fresh st"
proof (induction rule: metro_reachable.induct)
  case (metro_mount ctx)
  show ?case by (simp add: timer_ids_fresh_def useMetronome_def)
qed (simp_all add: fresh_toggle fresh_start_begin fresh_stop fresh_resume_settles
      fresh_toggle_continue fresh_reset_fires fresh_interval_fires fresh_updateSettings
      fresh_restart_fires)

text \<open>
  C2. From any reachable state, a call of \<^verbatim>\<open>start\<close> that is not turned away by
  its guard, with a working audio device and \<open>bpm\<close> between 40 and 200, resolves;
  it has requested the first pulse at the time \<open>now\<close> of the call, before any
  period has elapsed, and has registered an interval whose period is exactly
  \<open>60000 / bpm\<close> milliseconds and whose first firing is one period later. After
  \<open>k\<close> firings of that interval the pulses of this run were requested at
  \<open>now + j * (60000 / bpm)\<close> for \<open>j = 0, \<dots>, k\<close>.
\<close>

theorem start_schedules_period:
  assumes "metro_reachable st"
    and "40 \<le> bpm (r_settings r)" and "bpm (r_settings r) \<le> 200"
    and "\<not> r_isPlaying r" and "\<not> startInProgressRef st" and "audio_starts env st"
  shows "fst (start r env now st) = Inr ()
    \<and> sounds (snd (start r env now st)) = sounds st @ [beat_pulse (r_settings r) 0 now]
    \<and> intervals (snd (start r env now st)) =
        intervals st @ [\<lparr>iid = next_timer st, delay = 60000 / of_nat (bpm (r_settings r)),
                         next_due = now + 60000 / of_nat (bpm (r_settings r)),
                         captured = r_settings r\<rparr>]
    \<and> intervalRef (snd (start r env now st)) = Some (next_timer st)
    \<and> map emitted_at (drop (length (sounds st))
          (sounds ((interval_fires (next_timer st) ^^ k) (snd (start r env now st))))) =
        map (\<lambda>j. now + of_nat j * (60000 / of_nat (bpm (r_settings r)))) [0..<Suc k]
    \<and> 0 < 60000 / (of_nat (bpm (r_settings r)) :: rat)"
proof -
  from start_succeeds [OF assms(4,5,6)] obtain st0 where
    st0: "start r env now st = (Inr (), (start_run r now st0)\<lparr>startInProgressRef := False\<rparr>)"
      "audioContextRef st0 \<noteq> None" "sounds st0 = sounds st" "intervals st0 = intervals st"
      "next_timer st0 = next_timer st"
    by blast
  have fresh: "timer_ids_fresh st0"
    using metro_ids_fresh [OF assms(1)] st0(4,5) by (simp add: timer_ids_fresh_def)
  have at: "emitted_at (beat_pulse s j t) = t" for s j t
    by (simp add: beat_pulse_def accent_pulse_def regular_pulse_def oscillator_tone_def
        split: sound.splits)
  have run: "sounds ((interval_fires (next_timer st) ^^ k) (snd (start r env now st))) =
      sounds st @ map (\<lambda>j. beat_pulse (r_settings r) j (now + of_nat j * period r)) [0..<Suc k]"
    using run_after_start [OF st0(2) fresh, of k r now] st0 by simp
  have "0 < bpm (r_settings r)" using assms(2) by simp
  then have pos: "0 < 60000 / (of_nat (bpm (r_settings r)) :: rat)" by simp
  have e1: "fst (start r env now st) = Inr ()" using st0(1) by simp
  have e2: "sounds (snd (start r env now st)) = sounds st @ [beat_pulse (r_settings r) 0 now]"
    using st0 by (simp add: start_run_eq)
  have e3: "intervals (snd (start r env now st)) =
        intervals st @ [\<lparr>iid = next_timer st, delay = 60000 / of_nat (bpm (r_settings r)),
                         next_due = now + 60000 / of_nat (bpm (r_settings r)),
                         captured = r_settings r\<rparr>]"
    using st0 by (simp add: start_run_eq period_def)
  have e4: "intervalRef (snd (start r env now st)) = Some (next_timer st)"
    using st0 by (simp add: start_run_eq)
  have e5: "map emitted_at (drop (length (sounds st))
          (sounds ((interval_fires (next_timer st) ^^ k) (snd (start r env now st))))) =
        map (\<lambda>j. now + of_nat j * (60000 / of_nat (bpm (r_settings r)))) [0..<Suc k]"
    by (simp add: run at comp_def period_def del: upt_Suc)
  from e1 e2 e3 e4 e5 pos show ?thesis by blast
qed

theorem start_schedules_period_witness:
  "metro_reachable configured_90
   \<and> 40 \<le> bpm (r_settings (current_render configured_90))
   \<and> bpm (r_settings (current_render configured_90)) \<le> 200
   \<and> \<not> r_isPlaying (current_render configured_90)
   \<and> \<not> startInProgressRef configured_90
   \<and> audio_starts env_ok configured_90
   \<and> bpm (settings configured_90) = 90
   \<and> map delay (intervals (snd (start (current_render configured_90) env_ok 0 configured_90)))
       = [2000 / 3]
   \<and> map emitted_at (sounds ((interval_fires 1 ^^ 2)
         (snd (start (current_render configured_90) env_ok 0 configured_90))))
       = [0, 2000 / 3, 4000 / 3]"
proof -
  let ?st = "configured_90"
  have h1: "metro_reachable ?st"
    unfolding configured_90_def by (intro metro_reachable.metro_update metro_reachable.metro_mount)
  have st: "?st = (useMetronome (Some suspended))\<lparr>settings := default_settings\<lparr>bpm := 90\<rparr>\<rparr>"
    by (simp add: configured_90_def updateSettings_def bpm_only_def merge_settings_def
        current_render_def useMetronome_def default_settings_def Let_def)
  have h: "40 \<le> bpm (r_settings (current_render ?st))"
    "bpm (r_settings (current_render ?st)) \<le> 200" "\<not> r_isPlaying (current_render ?st)"
    "\<not> startInProgressRef ?st" "audio_starts env_ok ?st"
    unfolding st
    by (simp_all add: useMetronome_def current_render_def
        default_settings_def audio_starts_def init_fails_def resume_fails_def
        context_after_init_def env_ok_def)
  have u: "map (\<lambda>j. rat_of_nat j * 2000 / 3) [0..<3] = [0, 2000 / 3, 4000 / 3]"
    by (simp add: upt_rec)
  have b: "bpm (r_settings (current_render ?st)) = 90" "sounds ?st = []" "next_timer ?st = 1"
    "intervals ?st = []" "bpm (settings ?st) = 90"
    unfolding st by (simp_all add: useMetronome_def current_render_def default_settings_def)
  have "map delay (intervals (snd (start (current_render ?st) env_ok 0 ?st))) = [2000 / 3]
      \<and> map emitted_at (sounds ((interval_fires 1 ^^ 2)
         (snd (start (current_render ?st) env_ok 0 ?st)))) = [0, 2000 / 3, 4000 / 3]"
    using start_schedules_period [OF h1 h, of 0 2] by (simp add: u b)
  with h1 h b(5) show ?thesis by blast
qed

lemma pulse_facts:
  "frequency (accent_pulse s t) = 2 * frequency (regular_pulse s t)"
  "0 < frequency (regular_pulse s t)"
  "gain (accent_pulse s t) = (12 / 10) * gain (regular_pulse s t)"
  "gain (regular_pulse s t) = volume s"
  by (simp_all add: accent_pulse_def regular_pulse_def oscillator_tone_def split: sound.splits)

text \<open>
  C3, as the code has it. A run of the metronome is a \<^verbatim>\<open>start\<close> that gets past
  its guard with a working audio device, followed by \<open>k\<close> firings of the
  interval it set. The beats of the run have the indices \<open>0, \<dots>, k\<close> in the
  order they are emitted, and beat \<open>j\<close> is the accent pulse if \<open>accent\<close> is set
  and \<open>j\<close> modulo the time signature is 0, and the regular pulse otherwise; the
  two pulses differ. The accent pulse has twice the frequency of the regular
  pulse of the same sound, hence a strictly higher one, and 1.2 times its gain,
  which is strictly higher whenever the volume is positive.
\<close>

theorem accent_pulse_rule:
  assumes "metro_reachable st" and "\<not> r_isPlaying r" and "\<not> startInProgressRef st"
    and "audio_starts env st" and "0 < bpm (r_settings r)"
  shows "sounds ((interval_fires (next_timer st) ^^ k) (snd (start r env now st))) =
           sounds st @
           map (\<lambda>j. if is_accent_beat (r_settings r) j
                    then accent_pulse (r_settings r) (now + of_nat j * period r)
                    else regular_pulse (r_settings r) (now + of_nat j * period r))
               [0..<Suc k]
       \<and> (is_accent_beat s j \<longleftrightarrow> accent s \<and> timeSignature s \<noteq> 0 \<and> j mod timeSignature s = 0)
       \<and> accent_pulse s t \<noteq> regular_pulse s t
       \<and> frequency (regular_pulse s t) < frequency (accent_pulse s t)
       \<and> gain (accent_pulse s t) = (12 / 10) * gain (regular_pulse s t)
       \<and> (0 < volume s \<longrightarrow> gain (regular_pulse s t) < gain (accent_pulse s t))"
proof -
  from start_succeeds [OF assms(2,3,4)] obtain st0 where
    st0: "start r env now st = (Inr (), (start_run r now st0)\<lparr>startInProgressRef := False\<rparr>)"
      "audioContextRef st0 \<noteq> None" "sounds st0 = sounds st" "intervals st0 = intervals st"
      "next_timer st0 = next_timer st"
    by blast
  have fresh: "timer_ids_fresh st0"
    using metro_ids_fresh [OF assms(1)] st0(4,5) by (simp add: timer_ids_fresh_def)
  have c1: "sounds ((interval_fires (next_timer st) ^^ k) (snd (start r env now st))) =
           sounds st @
           map (\<lambda>j. if is_accent_beat (r_settings r) j
                    then accent_pulse (r_settings r) (now + of_nat j * period r)
                    else regular_pulse (r_settings r) (now + of_nat j * period r))
               [0..<Suc k]"
    using run_after_start [OF st0(2) fresh, of k r now] st0
    by (simp add: beat_pulse_def del: upt_Suc)
  have c2: "is_accent_beat s j \<longleftrightarrow> accent s \<and> timeSignature s \<noteq> 0 \<and> j mod timeSignature s = 0"
    by (auto simp: is_accent_beat_def js_mod_def)
  have c4: "frequency (regular_pulse s t) < frequency (accent_pulse s t)"
    using pulse_facts(1,2) [of s t] by simp
  then have c3: "accent_pulse s t \<noteq> regular_pulse s t" by auto
  have c5: "gain (accent_pulse s t) = (12 / 10) * gain (regular_pulse s t)"
    by (rule pulse_facts(3))
  have c6: "0 < volume s \<longrightarrow> gain (regular_pulse s t) < gain (accent_pulse s t)"
    using pulse_facts(3,4) [of s t] by simp
  from c1 c2 c3 c4 c5 c6 show ?thesis by blast
qed

theorem accent_pulse_rule_witness:
  "metro_reachable (useMetronome (Some running))
   \<and> \<not> r_isPlaying \<lparr>r_isPlaying = False, r_settings = default_settings\<rparr>
   \<and> \<not> startInProgressRef (useMetronome (Some running))
   \<and> audio_starts env_ok (useMetronome (Some running))
   \<and> 0 < bpm (r_settings \<lparr>r_isPlaying = False, r_settings = default_settings\<rparr>)
   \<and> 0 < volume default_settings
   \<and> sounds ((interval_fires 1 ^^ 4)
        (snd (start \<lparr>r_isPlaying = False, r_settings = default_settings\<rparr> env_ok 0
                (useMetronome (Some running)))))
       = [accent_pulse default_settings 0, regular_pulse default_settings 500,
          regular_pulse default_settings 1000, regular_pulse default_settings 1500,
          accent_pulse default_settings 2000]
   \<and> gain (regular_pulse default_settings 0) < gain (accent_pulse default_settings 0)"
proof -
  let ?st = "useMetronome (Some running)"
  let ?r = "\<lparr>r_isPlaying = False, r_settings = default_settings\<rparr>"
  have h1: "metro_reachable ?st" by (rule metro_reachable.metro_mount)
  have h: "\<not> r_isPlaying ?r" "\<not> startInProgressRef ?st" "audio_starts env_ok ?st"
    "0 < bpm (r_settings ?r)"
    by (simp_all add: useMetronome_def audio_starts_def init_fails_def resume_fails_def
        context_after_init_def env_ok_def default_settings_def)
  have v: "0 < volume default_settings" by (simp add: default_settings_def)
  have b: "is_accent_beat default_settings 0" "\<not> is_accent_beat default_settings 1"
    "\<not> is_accent_beat default_settings 2" "\<not> is_accent_beat default_settings 3"
    "is_accent_beat default_settings 4"
    by (simp_all add: is_accent_beat_def default_settings_def js_mod_def)
  have p: "period ?r = 500" by (simp add: period_def default_settings_def)
  have n: "next_timer ?st = 1" "sounds ?st = []" by (simp_all add: useMetronome_def)
  have u: "[0..<5] = [0, 1, 2, 3, 4]" by (simp add: upt_rec)
  note t = accent_pulse_rule [OF h1 h, of 4 0 default_settings 0 0]
  have run: "sounds ((interval_fires 1 ^^ 4) (snd (start ?r env_ok 0 ?st)))
       = [accent_pulse default_settings 0, regular_pulse default_settings 500,
          regular_pulse default_settings 1000, regular_pulse default_settings 1500,
          accent_pulse default_settings 2000]"
    using t b by (simp add: p n u)
  have g: "gain (regular_pulse default_settings 0) < gain (accent_pulse default_settings 0)"
    using t v by blast
  from h1 h v run g show ?thesis by blast
qed

lemma start_running_ctx:
  "start \<lparr>r_isPlaying = False, r_settings = s\<rparr> env now (useMetronome (Some running)) =
     (Inr (), (start_run \<lparr>r_isPlaying = False, r_settings = s\<rparr> now
                 ((useMetronome (Some running))\<lparr>startInProgressRef := True\<rparr>))
              \<lparr>startInProgressRef := False\<rparr>)"
  by (simp add: start_def start_begin_def useMetronome_def Let_def)

text \<open>
  C3 as stated fails for the gain: with the volume at 0 the accent pulse of beat
  0 and the regular pulse of beat 1 both have gain 0.
\<close>

theorem accent_gain_counterexample:
  "sounds (interval_fires 1 (snd (start \<lparr>r_isPlaying = False, r_settings = muted_settings\<rparr> env_ok 0
       (useMetronome (Some running)))))
     = [accent_pulse muted_settings 0, regular_pulse muted_settings 500]
   \<and> is_accent_beat muted_settings 0 \<and> \<not> is_accent_beat muted_settings 1
   \<and> \<not> gain (regular_pulse muted_settings 500) < gain (accent_pulse muted_settings 0)"
proof -
  let ?r = "\<lparr>r_isPlaying = False, r_settings = muted_settings\<rparr>"
  let ?st = "(useMetronome (Some running))\<lparr>startInProgressRef := True\<rparr>"
  have a: "audioContextRef ?st \<noteq> None" and f: "timer_ids_fresh ?st"
    and n: "next_timer ?st = 1" and s: "sounds ?st = []"
    by (simp_all add: useMetronome_def timer_ids_fresh_def)
  have p: "period ?r = 500" by (simp add: period_def muted_settings_def)
  have b: "is_accent_beat muted_settings 0" "\<not> is_accent_beat muted_settings 1"
    by (simp_all add: is_accent_beat_def muted_settings_def js_mod_def)
  have "sounds ((interval_fires (next_timer ?st) ^^ 1) ((start_run ?r 0 ?st)\<lparr>startInProgressRef := False\<rparr>))
      = [accent_pulse muted_settings 0, regular_pulse muted_settings 500]"
    using run_after_start [OF a f, of 1 ?r 0] b by (simp add: s p beat_pulse_def)
  then have c: "sounds (interval_fires 1 (snd (start ?r env_ok 0 (useMetronome (Some running)))))
     = [accent_pulse muted_settings 0, regular_pulse muted_settings 500]"
    by (simp add: start_running_ctx n)
  have g: "\<not> gain (regular_pulse muted_settings 500) < gain (accent_pulse muted_settings 0)"
    by (simp add: accent_pulse_def regular_pulse_def oscillator_tone_def muted_settings_def)
  from b c g show ?thesis by blast
qed

lemma start_rejects:
  assumes "\<not> r_isPlaying r" and "\<not> startInProgressRef st"
    and "init_fails env st \<or> resume_fails env st"
  shows "start r env now st = (Inl JsError, start_failed
           (if resume_fails env st
            then st\<lparr>startInProgressRef := True, audioContextRef := Some suspended,
                    start_awaiting := None\<rparr>
            else st\<lparr>startInProgressRef := True\<rparr>))"
  using assms
  by (auto simp: start_def start_begin_def start_resume_def init_fails_def resume_fails_def
      context_after_init_def Let_def start_failed_def split: option.splits if_splits)

lemma start_Inl_not_playing:
  "fst (start r env now st) = Inl e \<Longrightarrow> \<not> isPlaying (snd (start r env now st))"
  by (auto simp: start_def start_begin_def start_resume_def Let_def start_failed_def
      split: option.splits if_splits)

text \<open>
  C5. When a call of \<^verbatim>\<open>start\<close> gets past its guard and the audio context cannot
  be obtained, or the context is suspended and \<^verbatim>\<open>resume()\<close> rejects, the promise
  of \<^verbatim>\<open>start\<close> is rejected, \<^verbatim>\<open>isPlaying\<close> and the in-progress flag are false
  afterwards, and no sound or interval has been added. More generally, whenever
  \<^verbatim>\<open>start\<close> rejects, \<^verbatim>\<open>isPlaying\<close> is false afterwards.
\<close>

theorem start_failure_rejects:
  assumes "\<not> r_isPlaying r" and "\<not> startInProgressRef st"
    and "init_fails env st \<or> resume_fails env st"
  shows "fst (start r env now st) = Inl JsError
       \<and> \<not> isPlaying (snd (start r env now st))
       \<and> \<not> startInProgressRef (snd (start r env now st))
       \<and> sounds (snd (start r env now st)) = sounds st
       \<and> intervals (snd (start r env now st)) = intervals st
       \<and> intervalRef (snd (start r env now st)) = intervalRef st
       \<and> (\<forall>e. fst (start r' env' now' st') = Inl e \<longrightarrow>
              \<not> isPlaying (snd (start r' env' now' st')))"
  using start_Inl_not_playing [of r' env' now' st']
  by (simp add: start_rejects [OF assms] start_failed_def)

theorem start_failure_rejects_witness:
  "\<not> r_isPlaying (current_render (useMetronome (Some suspended)))
   \<and> \<not> startInProgressRef (useMetronome (Some suspended))
   \<and> resume_fails env_no_resume (useMetronome (Some suspended))
   \<and> fst (start (current_render (useMetronome (Some suspended))) env_no_resume 0
            (useMetronome (Some suspended))) = Inl JsError
   \<and> \<not> isPlaying (snd (start (current_render (useMetronome (Some suspended))) env_no_resume 0
            (useMetronome (Some suspended))))
   \<and> \<not> r_isPlaying (current_render (useMetronome None))
   \<and> \<not> startInProgressRef (useMetronome None)
   \<and> init_fails \<lparr>has_window = True, ctor_result = None, resume_ok = True\<rparr> (useMetronome None)
   \<and> fst (start (current_render (useMetronome None))
            \<lparr>has_window = True, ctor_result = None, resume_ok = True\<rparr> 0 (useMetronome None))
       = Inl JsError"
proof -
  have a: "\<not> r_isPlaying (current_render (useMetronome (Some suspended)))"
    "\<not> startInProgressRef (useMetronome (Some suspended))"
    "init_fails env_no_resume (useMetronome (Some suspended))
     \<or> resume_fails env_no_resume (useMetronome (Some suspended))"
    and a': "resume_fails env_no_resume (useMetronome (Some suspended))"
    by (simp_all add: current_render_def useMetronome_def resume_fails_def
        context_after_init_def env_no_resume_def)
  have b: "\<not> r_isPlaying (current_render (useMetronome None))"
    "\<not> startInProgressRef (useMetronome None)"
    "init_fails \<lparr>has_window = True, ctor_result = None, resume_ok = True\<rparr> (useMetronome None)
     \<or> resume_fails \<lparr>has_window = True, ctor_result = None, resume_ok = True\<rparr> (useMetronome None)"
    and b': "init_fails \<lparr>has_window = True, ctor_result = None, resume_ok = True\<rparr> (useMetronome None)"
    by (simp_all add: current_render_def useMetronome_def init_fails_def context_after_init_def)
  from start_failure_rejects [OF a, of 0] start_failure_rejects [OF b, of 0] a a' b b'
  show ?thesis by blast
qed

lemma find_filter_None: "find (\<lambda>t. iid t = i) (filter (\<lambda>t. iid t \<noteq> i) xs) = None"
  by (simp add: find_None_iff)

text \<open>
  C6, as the code has it. \<^verbatim>\<open>stop\<close>, in any state, clears the interval held in
  \<^verbatim>\<open>intervalRef\<close>, so that interval requests no further pulse; it sets
  \<^verbatim>\<open>isPlaying\<close> to false and the displayed \<^verbatim>\<open>currentBeat\<close> to 0, and requests no
  sound. It leaves the internal counter \<^verbatim>\<open>beatCountRef\<close> as it is; the next
  \<^verbatim>\<open>start\<close> resets the counter before its first pulse, which is the pulse of
  beat 0.
\<close>

theorem stop_effect:
  "intervalRef (stop st) = None
   \<and> \<not> isPlaying (stop st)
   \<and> currentBeat (stop st) = Some 0
   \<and> beatCountRef (stop st) = beatCountRef st
   \<and> sounds (stop st) = sounds st
   \<and> (intervalRef st = Some i \<longrightarrow>
        intervals (stop st) = filter (\<lambda>t. iid t \<noteq> i) (intervals st)
        \<and> interval_fires i (stop st) = stop st)
   \<and> (audioContextRef st \<noteq> None \<longrightarrow>
        beatCountRef (start_run r now (stop st)) = 1
        \<and> sounds (start_run r now (stop st)) = sounds st @ [beat_pulse (r_settings r) 0 now])"
proof -
  have "interval_fires i (stop st) = stop st" if "intervalRef st = Some i"
    using that by (simp add: interval_fires_def stop_def find_filter_None)
  moreover have "audioContextRef (stop st) = audioContextRef st"
    by (simp add: stop_def split: option.splits)
  moreover have "beatCountRef (stop st) = beatCountRef st" "sounds (stop st) = sounds st"
    "intervalRef (stop st) = None" "\<not> isPlaying (stop st)" "currentBeat (stop st) = Some 0"
    by (simp_all add: stop_def split: option.splits)
  moreover have "intervals (stop st) = filter (\<lambda>t. iid t \<noteq> i) (intervals st)"
    if "intervalRef st = Some i"
    using that by (simp add: stop_def)
  ultimately show ?thesis by (simp add: start_run_eq)
qed

theorem stop_effect_witness:
  "intervalRef (snd (start \<lparr>r_isPlaying = False, r_settings = default_settings\<rparr> env_ok 0
       (useMetronome (Some running)))) = Some 1
   \<and> intervals (stop (snd (start \<lparr>r_isPlaying = False, r_settings = default_settings\<rparr> env_ok 0
       (useMetronome (Some running))))) = []
   \<and> currentBeat (stop (snd (start \<lparr>r_isPlaying = False, r_settings = default_settings\<rparr> env_ok 0
       (useMetronome (Some running))))) = Some 0
   \<and> audioContextRef (snd (start \<lparr>r_isPlaying = False, r_settings = default_settings\<rparr> env_ok 0
       (useMetronome (Some running)))) \<noteq> None
   \<and> beatCountRef (start_run \<lparr>r_isPlaying = False, r_settings = default_settings\<rparr> 700
        (stop (snd (start \<lparr>r_isPlaying = False, r_settings = default_settings\<rparr> env_ok 0
           (useMetronome (Some running)))))) = 1"
proof -
  let ?r = "\<lparr>r_isPlaying = False, r_settings = default_settings\<rparr>"
  let ?st = "snd (start ?r env_ok 0 (useMetronome (Some running)))"
  have s: "?st = (start_run ?r 0 ((useMetronome (Some running))\<lparr>startInProgressRef := True\<rparr>))
              \<lparr>startInProgressRef := False\<rparr>"
    by (simp add: start_running_ctx)
  have a: "intervalRef ?st = Some 1" "filter (\<lambda>t. iid t \<noteq> 1) (intervals ?st) = []"
    "audioContextRef ?st \<noteq> None"
    unfolding s by (simp_all add: start_run_eq useMetronome_def)
  with stop_effect [of ?st 1 ?r 700] show ?thesis by simp
qed

text \<open>
  C6 as stated fails for the internal beat counter: after a start, one firing
  of the interval and a stop, \<^verbatim>\<open>beatCountRef\<close> reads 2, not 0.
\<close>

theorem stop_beat_counter_counterexample:
  "beatCountRef (stop (interval_fires 1
       (snd (start \<lparr>r_isPlaying = False, r_settings = default_settings\<rparr> env_ok 0
              (useMetronome (Some running)))))) = 2"
proof -
  let ?r = "\<lparr>r_isPlaying = False, r_settings = default_settings\<rparr>"
  let ?st = "(useMetronome (Some running))\<lparr>startInProgressRef := True\<rparr>"
  have a: "audioContextRef ?st \<noteq> None" and f: "timer_ids_fresh ?st"
    and n: "next_timer ?st = 1"
    by (simp_all add: useMetronome_def timer_ids_fresh_def)
  have "beatCountRef ((interval_fires (next_timer ?st) ^^ 1)
          ((start_run ?r 0 ?st)\<lparr>startInProgressRef := False\<rparr>)) = 2"
    using run_after_start [OF a f, of 1 ?r 0] by simp
  then have "beatCountRef (interval_fires 1 (snd (start ?r env_ok 0 (useMetronome (Some running))))) = 2"
    by (simp add: start_running_ctx n)
  then show ?thesis by (simp add: stop_def split: option.splits)
qed


lemma start_run_guards:
  "toggleInProgressRef (start_run r now st) = toggleInProgressRef st"
  "toggle_awaiting (start_run r now st) = toggle_awaiting st"
  "reset_timeouts (start_run r now st) = reset_timeouts st"
  "start_awaiting (start_run r now st) = start_awaiting st"
  "startInProgressRef (start_run r now st) = startInProgressRef st"
  by (simp_all add: start_run_def playBeat_def createSound_def Let_def split: option.splits)

lemma start_begin_guards:
  "toggleInProgressRef (snd (start_begin r env now st)) = toggleInProgressRef st"
  "toggle_awaiting (snd (start_begin r env now st)) = toggle_awaiting st"
  "reset_timeouts (snd (start_begin r env now st)) = reset_timeouts st"
  by (simp_all add: start_begin_def start_failed_def start_run_guards Let_def
      split: option.splits)

lemma start_resume_guards:
  "toggleInProgressRef (snd (start_resume ok now st)) = toggleInProgressRef st"
  "toggle_awaiting (snd (start_resume ok now st)) = toggle_awaiting st"
  "reset_timeouts (snd (start_resume ok now st)) = reset_timeouts st"
  by (simp_all add: start_resume_def start_failed_def start_run_guards Let_def
      split: option.splits)

lemma stop_guards:
  "toggleInProgressRef (stop st) = toggleInProgressRef st"
  "toggle_awaiting (stop st) = toggle_awaiting st"
  "reset_timeouts (stop st) = reset_timeouts st"
  "start_awaiting (stop st) = start_awaiting st"
  "startInProgressRef (stop st) = startInProgressRef st"
  by (simp_all add: stop_def split: option.splits)

lemma interval_fires_guards:
  "toggleInProgressRef (interval_fires i st) = toggleInProgressRef st"
  "toggle_awaiting (interval_fires i st) = toggle_awaiting st"
  "reset_timeouts (interval_fires i st) = reset_timeouts st"
  "start_awaiting (interval_fires i st) = start_awaiting st"
  "startInProgressRef (interval_fires i st) = startInProgressRef st"
  by (simp_all add: interval_fires_def interval_callback_def createSound_def Let_def
      split: option.splits)

lemma updateSettings_guards:
  "toggleInProgressRef (updateSettings r p st) = toggleInProgressRef st"
  "toggle_awaiting (updateSettings r p st) = toggle_awaiting st"
  "reset_timeouts (updateSettings r p st) = reset_timeouts st"
  "start_awaiting (updateSettings r p st) = start_awaiting st"
  "startInProgressRef (updateSettings r p st) = startInProgressRef st"
  by (simp_all add: updateSettings_def stop_guards Let_def)

lemma restart_fires_guards:
  "toggleInProgressRef (restart_fires env now st) = toggleInProgressRef st"
  "toggle_awaiting (restart_fires env now st) = toggle_awaiting st"
  "reset_timeouts (restart_fires env now st) = reset_timeouts st"
  by (simp_all add: restart_fires_def start_begin_guards split: list.splits)

lemma toggle_inv_frame:
  "toggleInProgressRef st' = toggleInProgressRef st \<Longrightarrow> toggle_awaiting st' = toggle_awaiting st \<Longrightarrow>
   reset_timeouts st' = reset_timeouts st \<Longrightarrow> toggle_inv st \<Longrightarrow> toggle_inv st'"
  by (simp add: toggle_inv_def)

lemma toggle_inv_toggle:
  assumes "toggle_inv st"
  shows "toggle_inv (snd (toggle r env now st))"
proof (cases "toggleInProgressRef st")
  case True
  with assms show ?thesis by (simp add: toggle_def)
next
  case False
  with assms have z: "toggle_awaiting st = None" "reset_timeouts st = 0"
    by (auto simp: toggle_inv_def)
  show ?thesis
  proof (cases "r_isPlaying r")
    case True
    with False z show ?thesis by (simp add: toggle_def toggle_inv_def stop_guards Let_def)
  next
    case notPlaying: False
    obtain out st2 where p: "start_begin r env now (st\<lparr>toggleInProgressRef := True\<rparr>) = (out, st2)"
      by (cases "start_begin r env now (st\<lparr>toggleInProgressRef := True\<rparr>)")
    from start_begin_guards [of r env now "st\<lparr>toggleInProgressRef := True\<rparr>"] p z
    have g: "toggleInProgressRef st2" "reset_timeouts st2 = 0" by simp_all
    with False notPlaying p show ?thesis
      by (cases out) (simp_all add: toggle_def toggle_inv_def Let_def)
  qed
qed

lemma toggle_inv_resume:
  assumes "toggle_inv st"
  shows "toggle_inv (resume_settles ok now st)"
proof (cases "start_awaiting st")
  case None
  with assms show ?thesis by (simp add: resume_settles_def)
next
  case (Some r)
  obtain res st1 where p: "start_resume ok now st = (res, st1)" by (cases "start_resume ok now st")
  from start_resume_guards [of ok now st] p
  have g: "toggleInProgressRef st1 = toggleInProgressRef st" "toggle_awaiting st1 = toggle_awaiting st"
    "reset_timeouts st1 = reset_timeouts st" by simp_all
  with assms Some p show ?thesis by (auto simp: resume_settles_def toggle_inv_def)
qed

lemma toggle_inv_continue: "toggle_inv st \<Longrightarrow> toggle_inv (snd (toggle_continue st))"
  by (auto simp: toggle_inv_def toggle_continue_def split: option.splits toggle_wait.splits)

lemma toggle_inv_reset: "toggle_inv st \<Longrightarrow> toggle_inv (reset_fires st)"
  by (auto simp: toggle_inv_def reset_fires_def)

lemma metro_toggle_inv: "metro_reachable st \<Longrightarrow> toggle_inv st"
proof (induction rule: metro_reachable.induct)
  case (metro_mount ctx)
  show ?case by (simp add: toggle_inv_def useMetronome_def)
next
  case (metro_toggle st r env now)
  then show ?case by (simp add: toggle_inv_toggle)
next
  case (metro_start st r env now)
  then show ?case by (auto intro: toggle_inv_frame simp: start_begin_guards)
next
  case (metro_stop st)
  then show ?case by (auto intro: toggle_inv_frame simp: stop_guards)
next
  case (metro_resume st ok now)
  then show ?case by (simp add: toggle_inv_resume)
next
  case (metro_continue st)
  then show ?case by (simp add: toggle_inv_continue)
next
  case (metro_reset st)
  then show ?case by (simp add: toggle_inv_reset)
next
  case (metro_interval st i)
  then show ?case by (auto intro: toggle_inv_frame simp: interval_fires_guards)
next
  case (metro_update st r p)
  then show ?case by (auto intro: toggle_inv_frame simp: updateSettings_guards)
next
  case (metro_restart st env now)
  then show ?case by (auto intro: toggle_inv_frame simp: restart_fires_guards)
qed

lemma start_inv_frame:
  "start_awaiting st' = start_awaiting st \<Longrightarrow> startInProgressRef st' = startInProgressRef st \<Longrightarrow>
   start_inv st \<Longrightarrow> start_inv st'"
  by (simp add: start_inv_def)

lemma start_inv_begin:
  assumes "start_inv st"
  shows "start_inv (snd (start_begin r env now st))"
proof (cases "r_isPlaying r \<or> startInProgressRef st")
  case True
  with assms show ?thesis by (simp add: start_begin_def)
next
  case False
  with assms have "start_awaiting st = None" by (auto simp: start_inv_def)
  with False show ?thesis
    by (simp add: start_begin_def start_inv_def start_failed_def start_run_guards Let_def
        split: option.splits)
qed

lemma start_inv_resume: "start_inv st \<Longrightarrow> start_inv (snd (start_resume ok now st))"
  by (simp add: start_resume_def start_inv_def start_failed_def start_run_guards Let_def
      split: option.splits)

lemma start_inv_resume_settles:
  assumes "start_inv st"
  shows "start_inv (resume_settles ok now st)"
proof (cases "start_awaiting st")
  case None
  with assms show ?thesis by (simp add: resume_settles_def)
next
  case (Some r)
  obtain res st1 where p: "start_resume ok now st = (res, st1)" by (cases "start_resume ok now st")
  with start_inv_resume [OF assms, of ok now] have "start_inv st1" by simp
  then have "start_inv (st1\<lparr>toggle_awaiting := x\<rparr>)" for x by (simp add: start_inv_def)
  with Some p \<open>start_inv st1\<close> show ?thesis by (simp add: resume_settles_def)
qed

lemma start_inv_toggle:
  assumes "start_inv st"
  shows "start_inv (snd (toggle r env now st))"
proof (cases "toggleInProgressRef st")
  case True
  with assms show ?thesis by (simp add: toggle_def)
next
  case False
  have a: "start_inv (st\<lparr>toggleInProgressRef := True\<rparr>)"
    using assms by (simp add: start_inv_def)
  show ?thesis
  proof (cases "r_isPlaying r")
    case True
    have "start_inv ((stop (st\<lparr>toggleInProgressRef := True\<rparr>))\<lparr>reset_timeouts := n\<rparr>)" for n
      using a by (simp add: start_inv_def stop_guards)
    with True False show ?thesis by (simp add: toggle_def Let_def)
  next
    case notPlaying: False
    obtain out st2 where p: "start_begin r env now (st\<lparr>toggleInProgressRef := True\<rparr>) = (out, st2)"
      by (cases "start_begin r env now (st\<lparr>toggleInProgressRef := True\<rparr>)")
    with start_inv_begin [OF a, of r env now] have "start_inv st2" by simp
    then have "start_inv (st2\<lparr>toggle_awaiting := x\<rparr>)" for x by (simp add: start_inv_def)
    with False notPlaying p show ?thesis
      by (cases out) (simp_all add: toggle_def Let_def)
  qed
qed

lemma start_inv_continue: "start_inv st \<Longrightarrow> start_inv (snd (toggle_continue st))"
  by (auto simp: start_inv_def toggle_continue_def split: option.splits toggle_wait.splits)

lemma start_inv_reset: "start_inv st \<Longrightarrow> start_inv (reset_fires st)"
  by (simp add: start_inv_def reset_fires_def)

lemma start_inv_restart: "start_inv st \<Longrightarrow> start_inv (restart_fires env now st)"
proof (cases "restart_timeouts st")
  case Nil
  assume "start_inv st"
  with Nil show ?thesis by (simp add: restart_fires_def)
next
  case (Cons r rs)
  assume "start_inv st"
  then have "start_inv (st\<lparr>restart_timeouts := rs\<rparr>)" by (simp add: start_inv_def)
  from start_inv_begin [OF this] Cons show ?thesis by (simp add: restart_fires_def)
qed

lemma metro_start_inv: "metro_reachable st \<Longrightarrow> start_inv st"
proof (induction rule: metro_reachable.induct)
  case (metro_mount ctx)
  show ?case by (simp add: start_inv_def useMetronome_def)
next
  case (metro_stop st)
  then show ?case by (auto intro: start_inv_frame simp: stop_guards)
next
  case (metro_interval st i)
  then show ?case by (auto intro: start_inv_frame simp: interval_fires_guards)
next
  case (metro_update st r p)
  then show ?case by (auto intro: start_inv_frame simp: updateSettings_guards)
qed (simp_all add: start_inv_toggle start_inv_begin start_inv_resume_settles start_inv_continue
      start_inv_reset start_inv_restart)

lemma toggle_in_progress_noop:
  "toggleInProgressRef st \<Longrightarrow> toggle r env now st = (Returned (Inr ()), st)"
  by (simp add: toggle_def)

lemma toggle_Awaiting_sets_flag:
  assumes "fst (toggle r env now st) = Awaiting"
  shows "toggleInProgressRef (snd (toggle r env now st))"
proof -
  from assms have f: "\<not> toggleInProgressRef st" and n: "\<not> r_isPlaying r"
    by (auto simp: toggle_def Let_def split: if_splits)
  obtain out st2 where p: "start_begin r env now (st\<lparr>toggleInProgressRef := True\<rparr>) = (out, st2)"
    by (cases "start_begin r env now (st\<lparr>toggleInProgressRef := True\<rparr>)")
  from start_begin_guards(1) [of r env now "st\<lparr>toggleInProgressRef := True\<rparr>"] p
  have "toggleInProgressRef st2" by simp
  with f n p show ?thesis by (cases out) (simp_all add: toggle_def Let_def)
qed


lemma update_same_context:
  "audioContextRef st = Some c \<Longrightarrow> st\<lparr>audioContextRef := Some c\<rparr> = st"
proof -
  assume "audioContextRef st = Some c"
  then have "st\<lparr>audioContextRef := Some c\<rparr> = st\<lparr>audioContextRef := audioContextRef st\<rparr>"
    by simp
  then show ?thesis by simp
qed

lemma start_begin_suspended:
  assumes "\<not> r_isPlaying r" and "\<not> startInProgressRef st"
    and "context_after_init env st = Some suspended"
  shows "start_begin r env now st =
           (Awaiting, st\<lparr>startInProgressRef := True, audioContextRef := Some suspended,
                         start_awaiting := Some r\<rparr>)"
  using assms
  by (cases "audioContextRef st")
     (auto simp: start_begin_def context_after_init_def Let_def split: if_splits option.splits)

lemma start_begin_running:
  assumes "\<not> r_isPlaying r" and "\<not> startInProgressRef st"
    and "context_after_init env st = Some c" and "c \<noteq> suspended"
  shows "start_begin r env now st =
           (Returned (Inr ()),
            (start_run r now (st\<lparr>startInProgressRef := True, audioContextRef := Some c\<rparr>))
              \<lparr>startInProgressRef := False\<rparr>)"
proof (cases "audioContextRef st")
  case None
  with assms show ?thesis
    by (auto simp: start_begin_def context_after_init_def Let_def split: if_splits option.splits)
next
  case (Some c')
  with assms have "c' = c" by (simp add: context_after_init_def)
  with Some have "audioContextRef (st\<lparr>startInProgressRef := True\<rparr>) = Some c" by simp
  from update_same_context [OF this]
  have e: "st\<lparr>startInProgressRef := True, audioContextRef := Some c\<rparr>
           = st\<lparr>startInProgressRef := True\<rparr>" .
  show ?thesis unfolding e using Some assms \<open>c' = c\<close>
    by (simp add: start_begin_def Let_def)
qed

lemma toggle_once_starts:
  assumes "\<not> toggleInProgressRef st" and "\<not> r_isPlaying r" and "\<not> startInProgressRef st"
    and "start_awaiting st = None" and "audio_starts env st"
  shows "\<exists>st0 t. toggle_once r env now later st =
             (start_run r t st0)\<lparr>startInProgressRef := False, toggle_awaiting := None,
                                  reset_timeouts := Suc (reset_timeouts st)\<rparr>
           \<and> audioContextRef st0 \<noteq> None \<and> sounds st0 = sounds st
           \<and> intervals st0 = intervals st \<and> next_timer st0 = next_timer st
           \<and> (t = now \<or> t = later)"
proof -
  from assms(5) obtain c where c: "context_after_init env st = Some c"
    and ok: "c = suspended \<longrightarrow> resume_ok env"
    by (auto simp: audio_starts_def init_fails_def resume_fails_def)
  let ?st1 = "st\<lparr>toggleInProgressRef := True\<rparr>"
  have c1: "context_after_init env ?st1 = Some c" and g1: "\<not> startInProgressRef ?st1"
    using c assms(3) by (simp_all add: context_after_init_def)
  show ?thesis
  proof (cases "c = suspended")
    case True
    let ?st0 = "?st1\<lparr>startInProgressRef := True, audioContextRef := Some suspended,
                     start_awaiting := None, toggle_awaiting := Some StartPending,
                     audioContextRef := Some running\<rparr>"
    have t: "toggle r env now st =
        (Awaiting, ?st1\<lparr>startInProgressRef := True, audioContextRef := Some suspended,
                         start_awaiting := Some r, toggle_awaiting := Some StartPending\<rparr>)"
      using assms(1,2) start_begin_suspended [OF assms(2) g1 c1 [unfolded True], of now]
      by (simp add: toggle_def Let_def)
    have "toggle_once r env now later st =
            (start_run r later ?st0)\<lparr>startInProgressRef := False, toggle_awaiting := None,
                                      reset_timeouts := Suc (reset_timeouts st)\<rparr>"
      using True ok
      by (simp add: toggle_once_def t toggle_settle_def resume_settles_def start_resume_def
          toggle_continue_def start_run_eq Let_def)
    then show ?thesis by (intro exI [of _ ?st0] exI [of _ later]) simp
  next
    case False
    let ?st0 = "?st1\<lparr>startInProgressRef := True, audioContextRef := Some c\<rparr>"
    have t: "toggle r env now st =
        (Awaiting, (start_run r now ?st0)\<lparr>startInProgressRef := False,
                                           toggle_awaiting := Some (StartSettled (Inr ()))\<rparr>)"
      using assms(1,2) start_begin_running [OF assms(2) g1 c1 False, of now]
      by (simp add: toggle_def Let_def)
    have "toggle_once r env now later st =
            (start_run r now ?st0)\<lparr>startInProgressRef := False, toggle_awaiting := None,
                                    reset_timeouts := Suc (reset_timeouts st)\<rparr>"
      using assms(4)
      by (simp add: toggle_once_def t toggle_settle_def resume_settles_def
          toggle_continue_def start_run_eq)
    then show ?thesis by (intro exI [of _ ?st0] exI [of _ now]) simp
  qed
qed

lemma toggle_starts_Awaiting:
  "\<not> toggleInProgressRef st \<Longrightarrow> \<not> r_isPlaying r \<Longrightarrow> fst (toggle r env now st) = Awaiting"
  by (simp add: toggle_def Let_def split: prod.splits outcome.splits)

text \<open>
  C4. In every reachable state in which a call of \<^verbatim>\<open>toggle\<close> is suspended, its
  promise unresolved, a further call of \<^verbatim>\<open>toggle\<close>, from any render, returns at
  once and changes nothing. In particular, when a first call is left unresolved,
  a second call made right after it is a no-op, and the two calls together end
  in the state that the first call alone ends in. When the first call starts a
  stopped metronome whose audio device works, that state has \<^verbatim>\<open>isPlaying\<close> true,
  one more interval and one more pulse than before: one change, not two.
\<close>

theorem toggle_twice_is_once:
  assumes "metro_reachable st"
  shows "(toggle_awaiting st \<noteq> None \<longrightarrow> toggle r' env' now' st = (Returned (Inr ()), st))
    \<and> (fst (toggle r env now st) = Awaiting \<longrightarrow>
          toggle r' env' now' (snd (toggle r env now st))
            = (Returned (Inr ()), snd (toggle r env now st))
        \<and> toggle_twice r env now r' env' now' later st = toggle_once r env now later st)
    \<and> (\<not> toggleInProgressRef st \<and> \<not> isPlaying st \<and> \<not> r_isPlaying r
        \<and> \<not> startInProgressRef st \<and> audio_starts env st \<longrightarrow>
          fst (toggle r env now st) = Awaiting
        \<and> isPlaying (toggle_twice r env now r' env' now' later st)
        \<and> length (intervals (toggle_twice r env now r' env' now' later st))
            = Suc (length (intervals st))
        \<and> length (sounds (toggle_twice r env now r' env' now' later st))
            = Suc (length (sounds st)))"
proof (intro conjI impI)
  assume "toggle_awaiting st \<noteq> None"
  with metro_toggle_inv [OF assms] have "toggleInProgressRef st"
    by (simp add: toggle_inv_def)
  then show "toggle r' env' now' st = (Returned (Inr ()), st)"
    by (rule toggle_in_progress_noop)
next
  assume a: "fst (toggle r env now st) = Awaiting"
  from toggle_Awaiting_sets_flag [OF a]
  show second: "toggle r' env' now' (snd (toggle r env now st))
            = (Returned (Inr ()), snd (toggle r env now st))"
    by (rule toggle_in_progress_noop)
  then show "toggle_twice r env now r' env' now' later st = toggle_once r env now later st"
    by (simp add: toggle_twice_def toggle_once_def)
next
  assume h: "\<not> toggleInProgressRef st \<and> \<not> isPlaying st \<and> \<not> r_isPlaying r
        \<and> \<not> startInProgressRef st \<and> audio_starts env st"
  then show aw: "fst (toggle r env now st) = Awaiting"
    by (simp add: toggle_starts_Awaiting)
  from toggle_Awaiting_sets_flag [OF aw]
  have "toggle r' env' now' (snd (toggle r env now st))
            = (Returned (Inr ()), snd (toggle r env now st))"
    by (rule toggle_in_progress_noop)
  then have eq: "toggle_twice r env now r' env' now' later st = toggle_once r env now later st"
    by (simp add: toggle_twice_def toggle_once_def)
  from metro_start_inv [OF assms] h have "start_awaiting st = None"
    by (auto simp: start_inv_def)
  with toggle_once_starts [of st r env now later] h obtain st0 t where
    o: "toggle_once r env now later st =
             (start_run r t st0)\<lparr>startInProgressRef := False, toggle_awaiting := None,
                                  reset_timeouts := Suc (reset_timeouts st)\<rparr>"
      "audioContextRef st0 \<noteq> None" "sounds st0 = sounds st" "intervals st0 = intervals st"
    by blast
  show "isPlaying (toggle_twice r env now r' env' now' later st)"
    unfolding eq o(1) using o(2) by (simp add: start_run_eq)
  show "length (intervals (toggle_twice r env now r' env' now' later st))
            = Suc (length (intervals st))"
    unfolding eq o(1) using o(2,4) by (simp add: start_run_eq)
  show "length (sounds (toggle_twice r env now r' env' now' later st))
            = Suc (length (sounds st))"
    unfolding eq o(1) using o(2,3) by (simp add: start_run_eq)
qed


theorem toggle_twice_is_once_witness:
  "metro_reachable (useMetronome (Some suspended))
   \<and> \<not> toggleInProgressRef (useMetronome (Some suspended))
   \<and> \<not> isPlaying (useMetronome (Some suspended))
   \<and> \<not> r_isPlaying \<lparr>r_isPlaying = False, r_settings = default_settings\<rparr>
   \<and> \<not> startInProgressRef (useMetronome (Some suspended))
   \<and> audio_starts env_ok (useMetronome (Some suspended))
   \<and> fst (toggle \<lparr>r_isPlaying = False, r_settings = default_settings\<rparr> env_ok 0
            (useMetronome (Some suspended))) = Awaiting
   \<and> metro_reachable (snd (toggle \<lparr>r_isPlaying = False, r_settings = default_settings\<rparr> env_ok 0
            (useMetronome (Some suspended))))
   \<and> toggle_awaiting (snd (toggle \<lparr>r_isPlaying = False, r_settings = default_settings\<rparr> env_ok 0
            (useMetronome (Some suspended)))) \<noteq> None
   \<and> toggle \<lparr>r_isPlaying = False, r_settings = default_settings\<rparr> env_ok 10
        (snd (toggle \<lparr>r_isPlaying = False, r_settings = default_settings\<rparr> env_ok 0
            (useMetronome (Some suspended))))
       = (Returned (Inr ()),
          snd (toggle \<lparr>r_isPlaying = False, r_settings = default_settings\<rparr> env_ok 0
            (useMetronome (Some suspended))))
   \<and> isPlaying (toggle_twice \<lparr>r_isPlaying = False, r_settings = default_settings\<rparr> env_ok 0
        \<lparr>r_isPlaying = False, r_settings = default_settings\<rparr> env_ok 10 30
        (useMetronome (Some suspended)))
   \<and> length (intervals (toggle_twice \<lparr>r_isPlaying = False, r_settings = default_settings\<rparr> env_ok 0
        \<lparr>r_isPlaying = False, r_settings = default_settings\<rparr> env_ok 10 30
        (useMetronome (Some suspended)))) = 1"
proof -
  let ?st = "useMetronome (Some suspended)"
  let ?r = "\<lparr>r_isPlaying = False, r_settings = default_settings\<rparr>"
  have r0: "metro_reachable ?st" by (rule metro_reachable.metro_mount)
  then have r1: "metro_reachable (snd (toggle ?r env_ok 0 ?st))"
    by (rule metro_reachable.metro_toggle)
  have h: "\<not> toggleInProgressRef ?st" "\<not> isPlaying ?st" "\<not> r_isPlaying ?r"
    "\<not> startInProgressRef ?st" "audio_starts env_ok ?st"
    by (simp_all add: useMetronome_def audio_starts_def init_fails_def resume_fails_def
        context_after_init_def env_ok_def)
  have c: "context_after_init env_ok ?st = Some suspended"
    by (simp add: context_after_init_def useMetronome_def)
  have w: "toggle_awaiting (snd (toggle ?r env_ok 0 ?st)) \<noteq> None"
    using h(1,3,4) start_begin_suspended [of ?r "?st\<lparr>toggleInProgressRef := True\<rparr>" env_ok 0] c
    by (simp add: toggle_def Let_def context_after_init_def)
  have n: "length (intervals ?st) = 0" by (simp add: useMetronome_def)
  from toggle_twice_is_once [OF r0, of ?r env_ok 10 ?r env_ok 0 30] h
  have p0: "fst (toggle ?r env_ok 0 ?st) = Awaiting"
    "isPlaying (toggle_twice ?r env_ok 0 ?r env_ok 10 30 ?st)"
    "length (intervals (toggle_twice ?r env_ok 0 ?r env_ok 10 30 ?st)) = Suc (length (intervals ?st))"
    by blast+
  from p0(3) n have len: "length (intervals (toggle_twice ?r env_ok 0 ?r env_ok 10 30 ?st)) = 1"
    by simp
  from toggle_twice_is_once [OF r1, of ?r env_ok 10 ?r env_ok 0 30] w
  have p1: "toggle ?r env_ok 10 (snd (toggle ?r env_ok 0 ?st))
              = (Returned (Inr ()), snd (toggle ?r env_ok 0 ?st))"
    by blast
  from r0 r1 h w p0(1,2) len p1 show ?thesis by blast
qed


section \<open>Practice session timers\<close>

subsection \<open>Handlers that run alone\<close>

text \<open>
  What a press of the play/pause button and a press of a stop button do when
  the handler finishes before anything else runs.
\<close>

lemma playPause_alone_eq:
  "playPause_alone now st =
     (if \<not> isRunning st then
        st\<lparr>isRunning := True, isPaused := False,
           sessionRef := map_option (\<lambda>s. s\<lparr>startTime := now\<rparr>) (sessionRef st)\<rparr>
      else if isPaused st then
        st\<lparr>isPaused := False, sessionRef := map_option (close_last_pause now) (sessionRef st)\<rparr>
      else
        st\<lparr>isPaused := True, sessionRef := map_option (push_pause now) (sessionRef st)\<rparr>)"
  by (simp add: playPause_alone_def handlePlayPause_def mobile_continue_def mobile_resume_def
      idle_def)

lemma mobile_stop_alone_eq:
  "mobile_stop_alone ok now st =
     (case mobile_savePracticeSession now st of
        None \<Rightarrow> st\<lparr>isRunning := False, isPaused := False, seconds := 0\<rparr>
      | Some row \<Rightarrow>
          (insert_settles ok row (st\<lparr>isSaving := True\<rparr>))
            \<lparr>isSaving := False, isRunning := False, isPaused := False, seconds := 0\<rparr>)"
  by (simp add: mobile_stop_alone_def mobile_handleStop_def mobile_continue_def
      mobile_resume_def idle_def split: option.splits)

lemma optimized_stop_alone_eq:
  "optimized_stop_alone ok now st =
     (if seconds st = 0 \<or> isSaving st then st
      else
        (case optimized_savePracticeSession
                (st\<lparr>isRunning := False, isPaused := False,
                    sessionRef := map_option
                      (\<lambda>s. s\<lparr>endTime := Some now, session_notes := songNotes st\<rparr>)
                      (sessionRef st)\<rparr>) of
           None \<Rightarrow> st
         | Some row \<Rightarrow> insert_settles ok row st)
        \<lparr>isRunning := False, isPaused := False, isSaving := False, seconds := 0,
         sessionRef := Some (new_session now (songNotes st))\<rparr>)"
  by (simp add: optimized_stop_alone_def optimized_handleStop_def optimized_continue_def
      optimized_resume_def idle_def insert_settles_def Let_def split: option.splits)

subsection \<open>The persisted duration\<close>

lemma fold_pause_acc:
  "fold (\<lambda>p acc. acc + ((case pause_end p of Some e \<Rightarrow> e | None \<Rightarrow> endT) - pause_start p)) ps a
   = a + sum_list (map (pause_length endT) ps)"
  by (induction ps arbitrary: a) (simp_all add: pause_length_def)

lemma totalPauseTime_sum: "totalPauseTime endT ps = sum_list (map (pause_length endT) ps)"
  by (simp add: totalPauseTime_def fold_pause_acc)

lemma Math_round_div_60000_pos: "30000 \<le> a \<Longrightarrow> 1 \<le> Math_round_div a 60000"
proof -
  assume "30000 \<le> a"
  then have "0 < (2 * a + 60000) div 120000"
    by (subst pos_imp_zdiv_pos_iff) simp_all
  then show ?thesis by (simp add: Math_round_div_def)
qed

lemma Math_round_div_60: "0 < Math_round_div (int d) 60 \<longleftrightarrow> 30 \<le> d"
proof -
  have "0 < (2 * int d + 60) div 120 \<longleftrightarrow> 120 \<le> 2 * int d + 60"
    by (subst pos_imp_zdiv_pos_iff) simp_all
  then show ?thesis by (simp add: Math_round_div_def)
qed

lemma mobile_durationMinutes_spec:
  assumes "30000 \<le> (now - startTime s) - sum_list (map (pause_length now) (pauses s))"
  shows "mobile_durationMinutes now s = spec_duration_minutes (startTime s) now (pauses s)"
proof -
  let ?p = "(now - startTime s) - sum_list (map (pause_length now) (pauses s))"
  have "max 0 ?p = ?p" using assms by simp
  moreover have "max 1 (Math_round_div ?p 60000) = Math_round_div ?p 60000"
    using Math_round_div_60000_pos [OF assms] by simp
  ultimately show ?thesis
    by (simp add: mobile_durationMinutes_def spec_duration_minutes_def totalPauseTime_sum Let_def)
qed

lemma mobile_durationMinutes_short:
  assumes "(now - startTime s) - sum_list (map (pause_length now) (pauses s)) < 30000"
  shows "mobile_durationMinutes now s = 0"
proof -
  let ?p = "max 0 ((now - startTime s) - sum_list (map (pause_length now) (pauses s)))"
  have "0 \<le> 2 * ?p + 60000" "2 * ?p + 60000 < 120000"
    using assms by simp_all
  then have "(2 * ?p + 60000) div 120000 = 0"
    by (rule div_pos_pos_trivial)
  then show ?thesis
    by (simp add: mobile_durationMinutes_def totalPauseTime_sum Math_round_div_def Let_def)
qed

lemma mobile_ticks_running:
  "isRunning st \<Longrightarrow> \<not> isPaused st \<Longrightarrow> (mobile_tick ^^ n) st = st\<lparr>seconds := seconds st + n\<rparr>"
  by (induction n arbitrary: st) (simp_all add: mobile_tick_def funpow_swap1)

lemma mobile_stop_rows:
  assumes "user st = Some uid" and "sessionRef st = Some s" and "seconds st \<noteq> 0"
  shows "practice_sessions (mobile_stop_alone True now st) =
           practice_sessions st @
             [\<lparr>user_id = uid, song_id = song st,
               duration_minutes = mobile_durationMinutes now s,
               row_notes = songNotes st\<rparr>]"
  using assms
  by (simp add: mobile_stop_alone_eq mobile_savePracticeSession_def insert_settles_def)

text \<open>
  Where \<^verbatim>\<open>MobilePracticeTimer\<close> and the stated policy agree and where they part.
  A signed-in user stops a session whose tick counter is not zero and the insert
  succeeds. From 30 seconds of running time on, the row carries the
  specification's duration; below 30 seconds it carries 0, where the
  specification says 1.
\<close>

lemma mobile_duration_from_30_seconds:
  assumes "user st = Some uid" and "sessionRef st = Some s" and "seconds st \<noteq> 0"
    and "30000 \<le> (now - startTime s) - sum_list (map (pause_length now) (pauses s))"
  shows "practice_sessions (mobile_stop_alone True now st) =
           practice_sessions st @
             [\<lparr>user_id = uid, song_id = song st,
               duration_minutes = spec_duration_minutes (startTime s) now (pauses s),
               row_notes = songNotes st\<rparr>]"
  using assms by (simp add: mobile_stop_rows mobile_durationMinutes_spec)

lemma mobile_duration_below_30_seconds:
  assumes "user st = Some uid" and "sessionRef st = Some s" and "seconds st \<noteq> 0"
    and "(now - startTime s) - sum_list (map (pause_length now) (pauses s)) < 30000"
  shows "practice_sessions (mobile_stop_alone True now st) =
           practice_sessions st @
             [\<lparr>user_id = uid, song_id = song st, duration_minutes = 0,
               row_notes = songNotes st\<rparr>]"
    and "1 \<le> spec_duration_minutes (startTime s) now (pauses s)"
  using assms by (simp_all add: mobile_stop_rows mobile_durationMinutes_short
      spec_duration_minutes_def)

text \<open>
  In \<^verbatim>\<open>MobileOptimizedTimer\<close> the duration is the tick counter held in
  \<^verbatim>\<open>session.duration\<close>, rounded to the nearest minute, and a row is inserted only
  when that is at least 1, that is from 30 ticks on.
\<close>

lemma optimized_stop_rows:
  assumes "user st = Some uid" and "sessionRef st = Some s" and "seconds st \<noteq> 0"
    and "\<not> isSaving st"
  shows "practice_sessions (optimized_stop_alone True now st) =
           practice_sessions st @
             (if 30 \<le> duration s
              then [\<lparr>user_id = uid, song_id = song st,
                     duration_minutes = Math_round_div (int (duration s)) 60,
                     row_notes = songNotes st\<rparr>]
              else [])"
  using assms Math_round_div_60 [of "duration s"]
  by (simp add: optimized_stop_alone_eq optimized_savePracticeSession_def insert_settles_def
      Let_def)

text \<open>
  C1 fails in \<^verbatim>\<open>MobilePracticeTimer\<close>. A signed-in user starts a session at
  time 0 and stops it at 20000 ms, after 20 ticks and no pause; the insert
  succeeds. \<^verbatim>\<open>savePracticeSession\<close> computes
  \<^verbatim>\<open>Math.round(practiceTime / (1000 * 60))\<close> with no floor, so the row persisted
  has \<open>duration_minutes = 0\<close>, where the policy of C1 (a floor of 1 minute
  whenever any time elapsed) gives 1. The desktop \<^verbatim>\<open>PracticeTimer\<close> has
  \<^verbatim>\<open>Math.max(1, Math.round(seconds / 60))\<close> and \<^verbatim>\<open>MobileOptimizedTimer\<close> skips the
  insert when the rounded duration is 0.
\<close>

theorem short_session_persists_zero_minutes:
  "map duration_minutes (practice_sessions (mobile_stop_alone True 20000
      ((mobile_tick ^^ 20) (playPause_alone 0 (MobilePracticeTimer (Some ''u'') ''s'' [] 0))))) = [0]
   \<and> seconds ((mobile_tick ^^ 20) (playPause_alone 0 (MobilePracticeTimer (Some ''u'') ''s'' [] 0))) = 20
   \<and> spec_duration_minutes 0 20000 [] = 1"
  by (simp add: mobile_ticks_running playPause_alone_eq MobilePracticeTimer_def
      mobile_stop_alone_eq mobile_savePracticeSession_def insert_settles_def new_session_def
      mobile_durationMinutes_def totalPauseTime_def Math_round_div_def spec_duration_minutes_def)

subsection \<open>The pause invariant\<close>









































end
